theory Spec2Isabelle
  imports Main
begin

section \<open>Python values, errors and string methods\<close>

text \<open>
  The class \<open>Hobo\<close> of \<open>hobo.py\<close> reads the export of a HOBO logger: it scans the
  leading lines of the file for the title, the serial number and the line that names
  the columns, and then hands the rest of the file to a table library.

  A Python \<open>str\<close> is modelled as a \<open>string\<close>; a \<open>char\<close> stands for the code point of
  the same number, so the model covers the texts whose code points are below 256
  (the degree sign of the vendor's unit labels is \<open>CHR 0xB0\<close>). An exception is a value
  of the type \<open>error\<close>; a computation that may raise returns \<open>error + 'a\<close>.
\<close>

datatype error =
    StopIteration | IndexError | AttributeError | TypeError | UnboundLocalError | csv_Error
  | ValueError

definition andthen :: "error + 'a \<Rightarrow> ('a \<Rightarrow> error + 'b) \<Rightarrow> error + 'b" where
  "andthen m k = (case m of Inl e \<Rightarrow> Inl e | Inr x \<Rightarrow> k x)"

text \<open>\<open>xs[i]\<close> for a literal index \<open>i \<ge> 0\<close>: IndexError out of range.\<close>

definition getitem :: "'a list \<Rightarrow> nat \<Rightarrow> error + 'a" where
  "getitem xs i = (if i < length xs then Inr (xs ! i) else Inl IndexError)"

text \<open>
  \<open>str.isspace\<close> on one character, for the code points below 256:
  the ASCII whitespace (TAB, LF, VT, FF, CR, FS, GS, RS, US, space), NEL and NBSP.
\<close>

definition isspace :: "char \<Rightarrow> bool" where
  "isspace c = (c \<in> set [CHR 0x09, CHR 0x0A, CHR 0x0B, CHR 0x0C, CHR 0x0D, CHR 0x1C,
     CHR 0x1D, CHR 0x1E, CHR 0x1F, CHR 0x20, CHR 0x85, CHR 0xA0])"

definition strip_where :: "(char \<Rightarrow> bool) \<Rightarrow> string \<Rightarrow> string" where
  "strip_where p s = rev (dropWhile p (rev (dropWhile p s)))"

text \<open>\<open>s.strip()\<close> and \<open>s.strip(chars)\<close>.\<close>

definition py_strip :: "string \<Rightarrow> string" where
  "py_strip s = strip_where isspace s"

definition py_strip_chars :: "string \<Rightarrow> string \<Rightarrow> string" where
  "py_strip_chars chars s = strip_where (\<lambda>c. c \<in> set chars) s"

text \<open>\<open>s.split(sep)\<close> for a separator of one character: every occurrence splits.\<close>

fun py_split :: "char \<Rightarrow> string \<Rightarrow> string list" where
  "py_split sep [] = [[]]"
| "py_split sep (c # cs) =
     (if c = sep then [] # py_split sep cs
      else (case py_split sep cs of [] \<Rightarrow> [[c]] | p # ps \<Rightarrow> (c # p) # ps))"

text \<open>\<open>s.split(sep, maxsplit)\<close>: only the first \<open>maxsplit\<close> occurrences split.\<close>

fun py_split_max :: "char \<Rightarrow> nat \<Rightarrow> string \<Rightarrow> string list" where
  "py_split_max sep 0 s = [s]"
| "py_split_max sep (Suc n) [] = [[]]"
| "py_split_max sep (Suc n) (c # cs) =
     (if c = sep then [] # py_split_max sep n cs
      else (case py_split_max sep (Suc n) cs of [] \<Rightarrow> [[c]] | p # ps \<Rightarrow> (c # p) # ps))"

text \<open>\<open>s.rsplit(sep, maxsplit)\<close>: the same from the right.\<close>

definition py_rsplit_max :: "char \<Rightarrow> nat \<Rightarrow> string \<Rightarrow> string list" where
  "py_rsplit_max sep n s = rev (map rev (py_split_max sep n (rev s)))"

fun startswith :: "string \<Rightarrow> string \<Rightarrow> bool" where
  "startswith s [] = True"
| "startswith [] (p # ps) = False"
| "startswith (c # cs) (p # ps) = (c = p \<and> startswith cs ps)"

text \<open>\<open>needle in s\<close> on strings: \<open>needle\<close> occurs in \<open>s\<close> as a substring.\<close>

fun py_in :: "string \<Rightarrow> string \<Rightarrow> bool" where
  "py_in needle [] = (needle = [])"
| "py_in needle (c # cs) = (startswith (c # cs) needle \<or> py_in needle cs)"

section \<open>The descriptor of one header field\<close>

text \<open>
  \<^verbatim>\<open>
  def find_units(header):
      header_units = header.split(",", 2)[1].strip()
      units = header_units.split(" ")[0].strip()
      return units
  \<close>
\<close>

definition find_units :: "string \<Rightarrow> error + string" where
  "find_units header =
     andthen (getitem (py_split_max CHR '','' 2 header) 1) (\<lambda>x.
       let header_units = py_strip x in
       andthen (getitem (py_split CHR '' '' header_units) 0) (\<lambda>y.
         Inr (py_strip y)))"

text \<open>
  \<^verbatim>\<open>
  def find_name(header):
      header_name = header.rsplit(",", 1)[1].strip(" )")
      if header_name.split(":")[0].strip() == "LBL":
          name = header_name.split(":")[1].strip()
      else:
          name = header.split(",", 1)[0].strip()
      return name
  \<close>
\<close>

definition find_name :: "string \<Rightarrow> error + string" where
  "find_name header =
     andthen (getitem (py_rsplit_max CHR '','' 1 header) 1) (\<lambda>x.
       let header_name = py_strip_chars '' )'' x in
       andthen (getitem (py_split CHR '':'' header_name) 0) (\<lambda>k.
         if py_strip k = ''LBL''
         then andthen (getitem (py_split CHR '':'' header_name) 1) (\<lambda>v. Inr (py_strip v))
         else andthen (getitem (py_split_max CHR '','' 1 header) 0) (\<lambda>v. Inr (py_strip v))))"

text \<open>
  \<^verbatim>\<open>
  def find_long_name(header):
      long_name = header.split(",", 1)[0].strip()
      return long_name
  \<close>
\<close>

definition find_long_name :: "string \<Rightarrow> error + string" where
  "find_long_name header =
     andthen (getitem (py_split_max CHR '','' 1 header) 0) (\<lambda>v. Inr (py_strip v))"

section \<open>The serial-number pattern\<close>

text \<open>
  \<^verbatim>\<open>SN_REGEX = re.compile(r'(?:LGR S/N: |Serial Number:)(\d+)')\<close>

  Below code point 256 the class \<open>\d\<close> holds the ten ASCII digits only.
  \<open>digits_after kw s\<close> is the group of a match of \<open>kw(\d+)\<close> at the start of \<open>s\<close>:
  the longest run of digits after the keyword, which must not be empty.
  \<open>SN_REGEX_search s\<close> is \<open>SN_REGEX.search(s)\<close>, reduced to group 1 of the match:
  the leftmost position where one of the two alternatives matches wins.
\<close>

definition isdigit :: "char \<Rightarrow> bool" where
  "isdigit c = (c \<in> set ''0123456789'')"

definition digits_after :: "string \<Rightarrow> string \<Rightarrow> string option" where
  "digits_after kw s =
     (if startswith s kw
      then (let d = takeWhile isdigit (drop (length kw) s) in if d = [] then None else Some d)
      else None)"

definition SN_REGEX_match :: "string \<Rightarrow> string option" where
  "SN_REGEX_match s =
     (case digits_after ''LGR S/N: '' s of
        Some d \<Rightarrow> Some d
      | None \<Rightarrow> digits_after ''Serial Number:'' s)"

fun SN_REGEX_search :: "string \<Rightarrow> string option" where
  "SN_REGEX_search [] = SN_REGEX_match []"
| "SN_REGEX_search (c # cs) =
     (case SN_REGEX_match (c # cs) of
        Some d \<Rightarrow> Some d
      | None \<Rightarrow> SN_REGEX_search cs)"

section \<open>The CSV reader of the standard library\<close>

text \<open>
  \<open>find_columns\<close> calls \<^verbatim>\<open>next(csv.reader(StringIO(header)))\<close>. The reader is the state
  machine of CPython's \<open>_csv\<close> module in its default dialect (delimiter \<open>,\<close>, quote
  character \<open>"\<close>, doubled quotes, no escape character, not strict), with the states and
  the function names of that module. The argument \<open>None\<close> of \<open>parse_process_char\<close> is
  the end of a line. A field longer than \<open>field_limit\<close> raises \<open>csv.Error\<close>, as does a
  character other than a line break after a line break outside quotes. (The machine is
  that of CPython 3.11 and later; earlier versions also raise on a NUL character.)
\<close>

datatype parser_state =
    START_RECORD | START_FIELD | IN_FIELD | IN_QUOTED_FIELD | QUOTE_IN_QUOTED_FIELD | EAT_CRNL

record reader =
  state :: parser_state
  row_fields :: "string list"
  field :: string

text \<open>\<open>row_fields\<close> is \<open>self->fields\<close>, the fields of the record read so far.\<close>

definition field_limit :: nat where
  "field_limit = 131072"

definition parse_save_field :: "reader \<Rightarrow> reader" where
  "parse_save_field r = r\<lparr>row_fields := row_fields r @ [field r], field := []\<rparr>"

definition parse_add_char :: "reader \<Rightarrow> char \<Rightarrow> error + reader" where
  "parse_add_char r c =
     (if field_limit \<le> length (field r) then Inl csv_Error
      else Inr (r\<lparr>field := field r @ [c]\<rparr>))"

definition is_newline :: "char \<Rightarrow> bool" where
  "is_newline c = (c = CHR 0x0A \<or> c = CHR 0x0D)"

definition end_of_record :: "reader \<Rightarrow> char option \<Rightarrow> reader" where
  "end_of_record r c =
     (parse_save_field r)\<lparr>state := (if c = None then START_RECORD else EAT_CRNL)\<rparr>"

definition start_field :: "reader \<Rightarrow> char option \<Rightarrow> error + reader" where
  "start_field r c =
     (case c of
        None \<Rightarrow> Inr (end_of_record r c)
      | Some ch \<Rightarrow>
          if is_newline ch then Inr (end_of_record r c)
          else if ch = CHR 0x22 then Inr (r\<lparr>state := IN_QUOTED_FIELD\<rparr>)
          else if ch = CHR '','' then Inr (parse_save_field r)
          else andthen (parse_add_char r ch) (\<lambda>r'. Inr (r'\<lparr>state := IN_FIELD\<rparr>)))"

definition parse_process_char :: "reader \<Rightarrow> char option \<Rightarrow> error + reader" where
  "parse_process_char r c =
     (case state r of
        START_RECORD \<Rightarrow>
          (case c of
             None \<Rightarrow> Inr r
           | Some ch \<Rightarrow>
               if is_newline ch then Inr (r\<lparr>state := EAT_CRNL\<rparr>)
               else start_field (r\<lparr>state := START_FIELD\<rparr>) c)
      | START_FIELD \<Rightarrow> start_field r c
      | IN_FIELD \<Rightarrow>
          (case c of
             None \<Rightarrow> Inr (end_of_record r c)
           | Some ch \<Rightarrow>
               if is_newline ch then Inr (end_of_record r c)
               else if ch = CHR '','' then Inr ((parse_save_field r)\<lparr>state := START_FIELD\<rparr>)
               else parse_add_char r ch)
      | IN_QUOTED_FIELD \<Rightarrow>
          (case c of
             None \<Rightarrow> Inr r
           | Some ch \<Rightarrow>
               if ch = CHR 0x22 then Inr (r\<lparr>state := QUOTE_IN_QUOTED_FIELD\<rparr>)
               else parse_add_char r ch)
      | QUOTE_IN_QUOTED_FIELD \<Rightarrow>
          (case c of
             None \<Rightarrow> Inr (end_of_record r c)
           | Some ch \<Rightarrow>
               if ch = CHR 0x22
               then andthen (parse_add_char r ch) (\<lambda>r'. Inr (r'\<lparr>state := IN_QUOTED_FIELD\<rparr>))
               else if ch = CHR '','' then Inr ((parse_save_field r)\<lparr>state := START_FIELD\<rparr>)
               else if is_newline ch then Inr (end_of_record r c)
               else andthen (parse_add_char r ch) (\<lambda>r'. Inr (r'\<lparr>state := IN_FIELD\<rparr>)))
      | EAT_CRNL \<Rightarrow>
          (case c of
             None \<Rightarrow> Inr (r\<lparr>state := START_RECORD\<rparr>)
           | Some ch \<Rightarrow> if is_newline ch then Inr r else Inl csv_Error))"

fun parse_line :: "reader \<Rightarrow> string \<Rightarrow> error + reader" where
  "parse_line r [] = parse_process_char r None"
| "parse_line r (c # cs) = andthen (parse_process_char r (Some c)) (\<lambda>r'. parse_line r' cs)"

text \<open>
  \<open>Reader_iternext\<close>: lines are read until a record is complete; a record still open
  in a quoted field at the end of the input is returned as it stands, and no input at
  all is \<open>StopIteration\<close>.
\<close>

fun Reader_iternext :: "reader \<Rightarrow> string list \<Rightarrow> error + string list" where
  "Reader_iternext r [] =
     (if field r \<noteq> [] \<or> state r = IN_QUOTED_FIELD then Inr (row_fields (parse_save_field r))
      else Inl StopIteration)"
| "Reader_iternext r (l # ls) =
     andthen (parse_line r l) (\<lambda>r'.
       if state r' \<noteq> START_RECORD then Reader_iternext r' ls else Inr (row_fields r'))"

text \<open>Iterating \<open>StringIO(s)\<close>: the lines of \<open>s\<close>, each with its line feed.\<close>

fun StringIO :: "string \<Rightarrow> string list" where
  "StringIO [] = []"
| "StringIO (c # cs) =
     (if c = CHR 0x0A then [c] # StringIO cs
      else (case StringIO cs of [] \<Rightarrow> [[c]] | l # ls \<Rightarrow> (c # l) # ls))"

definition csv_reader_next :: "string \<Rightarrow> error + string list" where
  "csv_reader_next header =
     Reader_iternext \<lparr>state = START_RECORD, row_fields = [], field = []\<rparr> (StringIO header)"

section \<open>The state of a \<open>Hobo\<close> object and the column mapper\<close>

text \<open>
  The attributes that \<open>from_csv\<close> sets on \<open>self\<close>. \<open>f\<close> is the open file, as the lines
  that iterating it still yields; \<open>name\<close> is the dictionary with the keys \<open>'temp'\<close>,
  \<open>'pres'\<close>, \<open>'rh'\<close> and \<open>'batt'\<close>, each holding a list of three entries
  \<open>[name, long_name, units]\<close> that are \<open>None\<close> until a header field is assigned;
  \<open>headers\<close> is unset until \<open>find_columns\<close> has run. A method returns its result or
  its exception together with the object as it has left it.
\<close>

datatype channel = Temp | Pres | Rh | Batt

record hobo =
  f :: "string list"
  title :: "string list option"
  sn :: "string option"
  timestamp :: "nat option"
  name :: "channel \<Rightarrow> string option list"
  headers :: "string list option"

type_synonym 'a outcome = "(error + 'a) \<times> hobo"

definition on_ok :: "'a outcome \<Rightarrow> ('a \<Rightarrow> hobo \<Rightarrow> 'b outcome) \<Rightarrow> 'b outcome" where
  "on_ok r k = (case r of (Inl e, self) \<Rightarrow> (Inl e, self) | (Inr x, self) \<Rightarrow> k x self)"

text \<open>\<open>for x in xs: body\<close>, left by the first exception.\<close>

fun for_each :: "('a \<Rightarrow> hobo \<Rightarrow> unit outcome) \<Rightarrow> 'a list \<Rightarrow> hobo \<Rightarrow> unit outcome" where
  "for_each body [] self = (Inr (), self)"
| "for_each body (x # xs) self = on_ok (body x self) (\<lambda>_. for_each body xs)"

text \<open>
  \<^verbatim>\<open>
  def find_col_timestamp(headers):
      for i, header in enumerate(headers):
          if 'Date Time' in header or 'Fecha Tiempo' in header:
              return i
  \<close>
\<close>

fun find_col_timestamp :: "string list \<Rightarrow> nat option" where
  "find_col_timestamp [] = None"
| "find_col_timestamp (header # hs) =
     (if py_in ''Date Time'' header \<or> py_in ''Fecha Tiempo'' header then Some 0
      else map_option Suc (find_col_timestamp hs))"

text \<open>
  The statement that the four channel finders share:
  \<^verbatim>\<open>self.name[k] = [find_name(header), find_long_name(header), find_units(header)]\<close>
\<close>

definition descriptor :: "string \<Rightarrow> error + string option list" where
  "descriptor header =
     andthen (find_name header) (\<lambda>n.
       andthen (find_long_name header) (\<lambda>l.
         andthen (find_units header) (\<lambda>u. Inr [Some n, Some l, Some u])))"

definition assign_name :: "channel \<Rightarrow> string \<Rightarrow> hobo \<Rightarrow> unit outcome" where
  "assign_name k header self =
     (case descriptor header of
        Inl e \<Rightarrow> (Inl e, self)
      | Inr d \<Rightarrow> (Inr (), self\<lparr>name := (name self)(k := d)\<rparr>))"

text \<open>
  \<^verbatim>\<open>
  def find_col_temperature(headers):
      for i, header in enumerate(headers):
          if 'High Res. Temp.' in header or 'High-Res Temp' in header:
              self.name['temp'] = [find_name(header), find_long_name(header),
                                   find_units(header)]
      for i, header in enumerate(headers):
          for s in ('Temp,', 'Temp.', 'Temperature'):
              if s in header:
                  self.name['temp'] = [find_name(header), find_long_name(header),
                                       find_units(header)]
  \<close>
\<close>

definition find_col_temperature :: "string list \<Rightarrow> hobo \<Rightarrow> unit outcome" where
  "find_col_temperature hs self =
     on_ok
       (for_each
          (\<lambda>header self.
             if py_in ''High Res. Temp.'' header \<or> py_in ''High-Res Temp'' header
             then assign_name Temp header self else (Inr (), self))
          hs self)
       (\<lambda>_. for_each
          (\<lambda>header. for_each
             (\<lambda>s self. if py_in s header then assign_name Temp header self else (Inr (), self))
             [''Temp,'', ''Temp.'', ''Temperature''])
          hs)"

text \<open>
  \<^verbatim>\<open>
  def find_col_preassure(headers):
      for i, header in enumerate(headers):
          if 'Pres abs,' in header:
              self.name['pres'] = [find_name(header), find_long_name(header),
                                   find_units(header)]
  \<close>
  and the same for \<open>'RH,'\<close> and \<open>'Batt, V'\<close>.
\<close>

definition find_col_preassure :: "string list \<Rightarrow> hobo \<Rightarrow> unit outcome" where
  "find_col_preassure hs self =
     for_each
       (\<lambda>header self. if py_in ''Pres abs,'' header then assign_name Pres header self
          else (Inr (), self))
       hs self"

definition find_col_rh :: "string list \<Rightarrow> hobo \<Rightarrow> unit outcome" where
  "find_col_rh hs self =
     for_each
       (\<lambda>header self. if py_in ''RH,'' header then assign_name Rh header self
          else (Inr (), self))
       hs self"

definition find_col_battery :: "string list \<Rightarrow> hobo \<Rightarrow> unit outcome" where
  "find_col_battery hs self =
     for_each
       (\<lambda>header self. if py_in ''Batt, V'' header then assign_name Batt header self
          else (Inr (), self))
       hs self"

text \<open>
  \<^verbatim>\<open>
  def find_columns(header):
      headers = next(csv.reader(StringIO(header)))
      self.headers = headers
      self.timestamp = find_col_timestamp(headers)
      find_col_temperature(headers)
      find_col_preassure(headers)
      find_col_rh(headers)
      find_col_battery(headers)
  \<close>
\<close>

definition find_columns :: "string \<Rightarrow> hobo \<Rightarrow> unit outcome" where
  "find_columns header self =
     (case csv_reader_next header of
        Inl e \<Rightarrow> (Inl e, self)
      | Inr hs \<Rightarrow>
          on_ok (find_col_temperature hs
                   (self\<lparr>headers := Some hs, timestamp := find_col_timestamp hs\<rparr>))
            (\<lambda>_ self. on_ok (find_col_preassure hs self)
              (\<lambda>_ self. on_ok (find_col_rh hs self)
                (\<lambda>_ self. find_col_battery hs self))))"

section \<open>The header scanner\<close>

text \<open>\<open>next(self.f)\<close>: the next line of the file, \<open>StopIteration\<close> at its end.\<close>

definition next_line :: "hobo \<Rightarrow> string outcome" where
  "next_line self =
     (case f self of
        [] \<Rightarrow> (Inl StopIteration, self)
      | l # ls \<Rightarrow> (Inr l, self\<lparr>f := ls\<rparr>))"

text \<open>
  \<^verbatim>\<open>
  def find_headers():
      while self.timestamp is None:
          header = next(self.f)
          if self.title is None:
              self.title = header.strip().split(":")
          if self.sn is None:
              sn_match = SN_REGEX.search(header)
              self.sn = sn_match.groups()[0] if sn_match else None
          find_columns(header)
      return header
  \<close>
  \<open>scan_line\<close> is the loop body after the line has been read. The local variable
  \<open>header\<close> is unbound until the body has run once.
\<close>

definition scan_line :: "string \<Rightarrow> hobo \<Rightarrow> unit outcome" where
  "scan_line header self =
     (let self1 = (if title self = None
                   then self\<lparr>title := Some (py_split CHR '':'' (py_strip header))\<rparr>
                   else self);
          self2 = (if sn self1 = None then self1\<lparr>sn := SN_REGEX_search header\<rparr> else self1)
      in find_columns header self2)"

lemma on_ok_cong [fundef_cong]:
  "r = r' \<Longrightarrow> (\<And>x s. r' = (Inr x, s) \<Longrightarrow> k x s = k' x s) \<Longrightarrow> on_ok r k = on_ok r' k'"
  by (auto simp: on_ok_def split: prod.splits sum.splits)

function find_headers_while :: "string option \<Rightarrow> hobo \<Rightarrow> string outcome" where
  "find_headers_while header self =
     (if timestamp self = None
      then on_ok (next_line self) (\<lambda>line self1.
             on_ok (scan_line line self1) (\<lambda>_ self2. find_headers_while (Some line) self2))
      else (case header of
              None \<Rightarrow> (Inl UnboundLocalError, self)
            | Some h \<Rightarrow> (Inr h, self)))"
  by pat_completeness auto

subsection \<open>The scan loop terminates: only \<open>next\<close> moves the file\<close>

text \<open>
  The channel finders assign to \<open>self.name\<close> only; \<open>same_but_name s s'\<close> says that two
  states differ in that attribute at most.
\<close>

definition same_but_name :: "hobo \<Rightarrow> hobo \<Rightarrow> bool" where
  "same_but_name s s' = (s' = s\<lparr>name := name s'\<rparr>)"

lemma same_but_name_refl [simp]: "same_but_name s s"
  by (simp add: same_but_name_def)

lemma same_but_name_trans: "same_but_name s s' \<Longrightarrow> same_but_name s' s'' \<Longrightarrow> same_but_name s s''"
  unfolding same_but_name_def by (metis hobo.update_convs(5) hobo.surjective)

lemma same_but_name_update [simp]: "same_but_name s (s\<lparr>name := n\<rparr>)"
  by (simp add: same_but_name_def)

lemma same_but_name_assign: "same_but_name s (snd (assign_name k h s))"
  by (simp add: assign_name_def split: sum.splits)

lemma same_but_name_on_ok:
  "same_but_name s (snd r) \<Longrightarrow> (\<And>x s1. same_but_name s1 (snd (k x s1))) \<Longrightarrow>
   same_but_name s (snd (on_ok r k))"
  by (auto simp: on_ok_def split: prod.splits sum.splits intro: same_but_name_trans)

lemma same_but_name_for_each:
  "(\<And>x s1. same_but_name s1 (snd (body x s1))) \<Longrightarrow> same_but_name s (snd (for_each body xs s))"
proof (induction xs arbitrary: s)
  case Nil
  show ?case by simp
next
  case (Cons x xs)
  show ?case
    unfolding for_each.simps
    by (rule same_but_name_on_ok) (use Cons in auto)
qed

lemma same_but_name_temperature: "same_but_name s (snd (find_col_temperature hs s))"
  unfolding find_col_temperature_def
  by (intro same_but_name_on_ok same_but_name_for_each) (simp_all add: same_but_name_assign)

lemma same_but_name_preassure: "same_but_name s (snd (find_col_preassure hs s))"
  unfolding find_col_preassure_def
  by (intro same_but_name_for_each) (simp_all add: same_but_name_assign)

lemma same_but_name_rh: "same_but_name s (snd (find_col_rh hs s))"
  unfolding find_col_rh_def
  by (intro same_but_name_for_each) (simp_all add: same_but_name_assign)

lemma same_but_name_battery: "same_but_name s (snd (find_col_battery hs s))"
  unfolding find_col_battery_def
  by (intro same_but_name_for_each) (simp_all add: same_but_name_assign)


lemma same_but_name_fields:
  assumes "same_but_name s s'"
  shows "f s' = f s" and "title s' = title s" and "sn s' = sn s"
    and "timestamp s' = timestamp s" and "headers s' = headers s"
proof -
  from assms have eq: "s' = s\<lparr>name := name s'\<rparr>" by (simp add: same_but_name_def)
  show "f s' = f s" by (subst eq) simp
  show "title s' = title s" by (subst eq) simp
  show "sn s' = sn s" by (subst eq) simp
  show "timestamp s' = timestamp s" by (subst eq) simp
  show "headers s' = headers s" by (subst eq) simp
qed

lemma find_columns_raise: "csv_reader_next l = Inl e \<Longrightarrow> find_columns l s = (Inl e, s)"
  by (simp add: find_columns_def)

lemma find_columns_frame:
  assumes "csv_reader_next l = Inr hs"
  shows "same_but_name (s\<lparr>headers := Some hs, timestamp := find_col_timestamp hs\<rparr>)
           (snd (find_columns l s))"
  unfolding find_columns_def using assms
  by (simp del: same_but_name_refl)
     (intro same_but_name_on_ok same_but_name_temperature same_but_name_preassure
        same_but_name_rh same_but_name_battery)

lemma find_columns_f: "f (snd (find_columns l s)) = f s"
  using same_but_name_fields(1) [OF find_columns_frame, of l _ s]
  by (cases "csv_reader_next l") (simp_all add: find_columns_raise)

lemma find_columns_title: "title (snd (find_columns l s)) = title s"
  using same_but_name_fields(2) [OF find_columns_frame, of l _ s]
  by (cases "csv_reader_next l") (simp_all add: find_columns_raise)

lemma find_columns_sn: "sn (snd (find_columns l s)) = sn s"
  using same_but_name_fields(3) [OF find_columns_frame, of l _ s]
  by (cases "csv_reader_next l") (simp_all add: find_columns_raise)

lemma find_columns_timestamp:
  "timestamp (snd (find_columns l s)) =
     (case csv_reader_next l of Inl e \<Rightarrow> timestamp s | Inr hs \<Rightarrow> find_col_timestamp hs)"
proof (cases "csv_reader_next l")
  case (Inl e)
  then show ?thesis by (simp add: find_columns_raise)
next
  case (Inr hs)
  show ?thesis using same_but_name_fields(4) [OF find_columns_frame [OF Inr, of s]] Inr by simp
qed

lemma find_columns_headers:
  "headers (snd (find_columns l s)) =
     (case csv_reader_next l of Inl e \<Rightarrow> headers s | Inr hs \<Rightarrow> Some hs)"
proof (cases "csv_reader_next l")
  case (Inl e)
  then show ?thesis by (simp add: find_columns_raise)
next
  case (Inr hs)
  show ?thesis using same_but_name_fields(5) [OF find_columns_frame [OF Inr, of s]] Inr by simp
qed

lemma scan_line_f: "f (snd (scan_line l s)) = f s"
  by (simp add: scan_line_def Let_def find_columns_f)

lemma next_line_Inr: "next_line s = (Inr l, s1) \<Longrightarrow> f s = l # f s1"
  by (auto simp: next_line_def split: list.splits)

termination find_headers_while
proof (relation "measure (\<lambda>(h, s). length (f s))")
  show "wf (measure (\<lambda>(h, s). length (f s)))" by simp
next
  fix header :: "string option" and self line self1 u self2
  assume "next_line self = (Inr line, self1)" and "scan_line line self1 = (Inr u, self2)"
  then have "f self = line # f self1" and "f self2 = f self1"
    using next_line_Inr scan_line_f [of line self1] by auto
  then show "((Some line, self2), (header, self)) \<in> measure (\<lambda>(h, s). length (f s))"
    by simp
qed

declare find_headers_while.simps [simp del]

definition find_headers :: "hobo \<Rightarrow> string outcome" where
  "find_headers self = find_headers_while None self"

section \<open>\<open>from_csv\<close> up to the metadata\<close>

text \<open>
  \<^verbatim>\<open>
  self.f = open(self.path, mode='rt', encoding='utf-8-sig')
  self.title, self.sn = None, None
  self.timestamp = None
  self.name = {'temp': [None, None, None], 'pres': [None, None, None],
               'rh': [None, None, None], 'batt': [None, None, None]}
  ...
  find_headers()
  wf = WaterFrame()
  metadata = {}
  metadata[self.title[0]] = self.title[1].strip()
  metadata["S/N"] = self.sn.strip()
  wf.metadata = metadata
  \<close>
  The argument of \<open>from_csv\<close> is the content of the file at \<open>self.path\<close>, as the lines
  that iterating the opened file yields. The model returns the metadata dictionary and
  the object at the point where the table library takes over the file. Subscripting
  \<open>None\<close> is a \<open>TypeError\<close> and \<open>None.strip()\<close> an \<open>AttributeError\<close>.
\<close>

definition open_file :: "string list \<Rightarrow> hobo" where
  "open_file file_lines =
     \<lparr>f = file_lines, title = None, sn = None, timestamp = None,
      name = (\<lambda>k. [None, None, None]), headers = None\<rparr>"

definition make_metadata :: "hobo \<Rightarrow> error + (string \<rightharpoonup> string)" where
  "make_metadata self =
     (case title self of
        None \<Rightarrow> Inl TypeError
      | Some t \<Rightarrow>
          andthen (getitem t 1) (\<lambda>v.
            andthen (getitem t 0) (\<lambda>k.
              let metadata = Map.empty(k \<mapsto> py_strip v) in
              (case sn self of
                 None \<Rightarrow> Inl AttributeError
               | Some serial \<Rightarrow> Inr (metadata(''S/N'' \<mapsto> py_strip serial))))))"

definition from_csv :: "string list \<Rightarrow> (string \<rightharpoonup> string) outcome" where
  "from_csv file_lines =
     on_ok (find_headers (open_file file_lines)) (\<lambda>_ self.
       (case make_metadata self of
          Inl e \<Rightarrow> (Inl e, self)
        | Inr metadata \<Rightarrow> (Inr metadata, self)))"

section \<open>The columns of the table\<close>

text \<open>
  After the table library has read the rows, \<open>from_csv\<close> renames the columns of the
  channels, keeps them and adds the quality-control columns:
  \<^verbatim>\<open>
  df = pd.read_csv(self.f, names=self.headers, index_col=self.timestamp)
  ...
  for col in df.columns:
      if 'Temp' in col:
          df.rename(columns={col: self.name['temp'][0]}, inplace=True)
      elif 'Pres' in col:
          df.rename(columns={col: self.name['pres'][0]}, inplace=True)
      elif 'Batt' in col:
          df.rename(columns={col: self.name['batt'][0]}, inplace=True)
      elif 'RH' in col:
          df.rename(columns={col: self.name['rh'][0]}, inplace=True)
  df = df.filter(items=[self.name['temp'][0], self.name['pres'][0], self.name['batt'][0],
                        self.name['rh'][0]])
  for key in df.keys():
      df["{}_QC".format(key)] = 0
  \<close>
  A DataFrame is modelled by its number of rows and its columns in order, each a label
  (a string or \<open>None\<close>) with its values; a value is a datum of the file or an integer
  flag. The operations follow the table library:
  \<^item> the columns that \<open>read_csv\<close> gives the table are the names, without the one at
    the position of the index column (\<open>read_csv_keys\<close>); reading the values is not
    modelled, a table is an argument of the functions below;
  \<^item> \<open>df.columns\<close> and \<open>df.keys()\<close> are the column index at the time of the call: a loop
    over it does not see the columns that it renames or adds;
  \<^item> \<open>df.rename(columns={col: new})\<close> gives the columns labelled \<open>col\<close> the label \<open>new\<close>,
    also when \<open>new\<close> is \<open>None\<close>;
  \<^item> \<open>df.filter(items=l)\<close> reindexes the columns to the entries of \<open>l\<close> that are labels
    of \<open>df\<close>, in the order of \<open>l\<close>; reindexing columns with a repeated label raises
    \<open>ValueError\<close>, unless the new labels are the old ones or there are none;
  \<^item> \<open>df[key] = 0\<close> overwrites the column \<open>key\<close> where it exists and appends it
    otherwise.
  The test \<open>'Temp' in col\<close> on a label that is \<open>None\<close> is a \<open>TypeError\<close>.
\<close>

datatype 'v cell = Data 'v | Flag int

record 'v frame =
  rows :: nat
  columns :: "(string option \<times> 'v cell list) list"

definition keys :: "'v frame \<Rightarrow> string option list" where
  "keys df = map fst (columns df)"

definition read_csv_keys :: "hobo \<Rightarrow> string option list" where
  "read_csv_keys self =
     (case (headers self, timestamp self) of
        (Some hs, Some i) \<Rightarrow> map Some (take i hs @ drop (Suc i) hs)
      | _ \<Rightarrow> [])"

definition rename :: "string \<Rightarrow> string option \<Rightarrow> 'v frame \<Rightarrow> 'v frame" where
  "rename col new df =
     df\<lparr>columns := map (\<lambda>c. if fst c = Some col then (new, snd c) else c) (columns df)\<rparr>"

definition rename_column :: "hobo \<Rightarrow> string option \<Rightarrow> 'v frame \<Rightarrow> error + 'v frame" where
  "rename_column self key df =
     (case key of
        None \<Rightarrow> Inl TypeError
      | Some col \<Rightarrow>
          if py_in ''Temp'' col
          then andthen (getitem (name self Temp) 0) (\<lambda>n. Inr (rename col n df))
          else if py_in ''Pres'' col
          then andthen (getitem (name self Pres) 0) (\<lambda>n. Inr (rename col n df))
          else if py_in ''Batt'' col
          then andthen (getitem (name self Batt) 0) (\<lambda>n. Inr (rename col n df))
          else if py_in ''RH'' col
          then andthen (getitem (name self Rh) 0) (\<lambda>n. Inr (rename col n df))
          else Inr df)"

fun rename_loop :: "hobo \<Rightarrow> string option list \<Rightarrow> 'v frame \<Rightarrow> error + 'v frame" where
  "rename_loop self [] df = Inr df"
| "rename_loop self (key # ks) df = andthen (rename_column self key df) (rename_loop self ks)"

definition rename_columns :: "hobo \<Rightarrow> 'v frame \<Rightarrow> error + 'v frame" where
  "rename_columns self df = rename_loop self (keys df) df"

definition filter_items :: "string option list \<Rightarrow> 'v frame \<Rightarrow> error + 'v frame" where
  "filter_items items df =
     (let keep = filter (\<lambda>r. r \<in> set (keys df)) items in
      if keep = keys df then Inr df
      else if distinct (keys df) \<or> keep = []
      then Inr (df\<lparr>columns := concat (map (\<lambda>r. filter (\<lambda>c. fst c = r) (columns df)) keep)\<rparr>)
      else Inl ValueError)"

definition setitem :: "string option \<Rightarrow> 'v cell \<Rightarrow> 'v frame \<Rightarrow> 'v frame" where
  "setitem key v df =
     (if key \<in> set (keys df)
      then df\<lparr>columns :=
             map (\<lambda>c. if fst c = key then (key, replicate (rows df) v) else c) (columns df)\<rparr>
      else df\<lparr>columns := columns df @ [(key, replicate (rows df) v)]\<rparr>)"

text \<open>\<open>"{}_QC".format(key)\<close>\<close>

definition format_QC :: "string option \<Rightarrow> string" where
  "format_QC key = (case key of None \<Rightarrow> ''None'' | Some k \<Rightarrow> k) @ ''_QC''"

definition add_QC_keys :: "'v frame \<Rightarrow> 'v frame" where
  "add_QC_keys df = fold (\<lambda>key. setitem (Some (format_QC key)) (Flag 0)) (keys df) df"

definition channel_items :: "hobo \<Rightarrow> error + string option list" where
  "channel_items self =
     andthen (getitem (name self Temp) 0) (\<lambda>t.
       andthen (getitem (name self Pres) 0) (\<lambda>p.
         andthen (getitem (name self Batt) 0) (\<lambda>b.
           andthen (getitem (name self Rh) 0) (\<lambda>r. Inr [t, p, b, r]))))"

definition table_columns :: "hobo \<Rightarrow> 'v frame \<Rightarrow> error + 'v frame" where
  "table_columns self df =
     andthen (channel_items self) (\<lambda>items.
       andthen (filter_items items df) (\<lambda>df'. Inr (add_QC_keys df')))"

text \<open>The lines 166 to 182 of \<open>from_csv\<close>, on the table that has been read.\<close>

definition assemble :: "hobo \<Rightarrow> 'v frame \<Rightarrow> error + 'v frame" where
  "assemble self df = andthen (rename_columns self df) (table_columns self)"

section \<open>Rules for evaluating the model\<close>

lemma andthen_weak_cong [cong]: "m = m' \<Longrightarrow> andthen m k = andthen m' k"
  by simp

lemma andthen_simps [simp]: "andthen (Inl e) k = Inl e" "andthen (Inr x) k = k x"
  by (simp_all add: andthen_def)

lemma on_ok_weak_cong [cong]: "r = r' \<Longrightarrow> on_ok r k = on_ok r' k"
  by simp

lemma on_ok_simps [simp]: "on_ok (Inl e, s) k = (Inl e, s)" "on_ok (Inr x, s) k = k x s"
  by (simp_all add: on_ok_def)

lemma py_split_max_numeral [simp]:
  "py_split_max sep (numeral n) s = py_split_max sep (Suc (pred_numeral n)) s"
  by (simp only: numeral_eq_Suc)

lemmas csv_eval = csv_reader_next_def parse_process_char_def start_field_def parse_add_char_def
  parse_save_field_def end_of_record_def is_newline_def field_limit_def

lemmas str_eval = getitem_def py_rsplit_max_def py_strip_chars_def py_strip_def strip_where_def
  isspace_def Let_def

lemmas field_eval = find_name_def find_units_def find_long_name_def descriptor_def

lemmas scan_eval = from_csv_def find_headers_def find_headers_while.simps next_line_def
  scan_line_def find_columns_def find_col_temperature_def find_col_preassure_def
  find_col_rh_def find_col_battery_def assign_name_def open_file_def make_metadata_def
  SN_REGEX_match_def digits_after_def isdigit_def

lemmas table_eval = table_columns_def channel_items_def filter_items_def add_QC_keys_def
  setitem_def format_QC_def keys_def read_csv_keys_def rename_columns_def rename_column_def
  rename_def assemble_def

section \<open>Facts about the string methods\<close>

lemma py_split_not_Nil [simp]: "py_split sep s \<noteq> []"
  by (induction s) (auto split: list.splits)

lemma py_split_max_not_Nil [simp]: "py_split_max sep n s \<noteq> []"
  by (induction sep n s rule: py_split_max.induct) (auto split: list.splits)

lemma py_split_max_no_sep: "sep \<notin> set s \<Longrightarrow> py_split_max sep n s = [s]"
  by (induction sep n s rule: py_split_max.induct) auto

lemma py_split_max_sep: "sep \<in> set s \<Longrightarrow> 1 < length (py_split_max sep (Suc n) s)"
proof (induction s)
  case Nil
  then show ?case by simp
next
  case (Cons c cs)
  show ?case
  proof (cases "c = sep")
    case True
    then show ?thesis by (simp add: Suc_lessI)
  next
    case False
    with Cons have "1 < length (py_split_max sep (Suc n) cs)" by simp
    with False show ?thesis by (auto split: list.splits)
  qed
qed

lemma py_rsplit_max_no_sep: "sep \<notin> set s \<Longrightarrow> py_rsplit_max sep n s = [s]"
  by (simp add: py_rsplit_max_def py_split_max_no_sep)

lemma getitem_0: "xs \<noteq> [] \<Longrightarrow> getitem xs 0 = Inr (hd xs)"
  by (cases xs) (simp_all add: getitem_def)

section \<open>The loops of the channel finders\<close>

text \<open>
  The conditions of the two passes of \<open>find_col_temperature\<close>, and the fields on which
  the assignment of a descriptor does not raise.
\<close>

definition primary_temperature :: "string \<Rightarrow> bool" where
  "primary_temperature header =
     (py_in ''High Res. Temp.'' header \<or> py_in ''High-Res Temp'' header)"

definition fallback_temperature :: "string \<Rightarrow> bool" where
  "fallback_temperature header =
     (py_in ''Temp,'' header \<or> py_in ''Temp.'' header \<or> py_in ''Temperature'' header)"

definition describable :: "string \<Rightarrow> bool" where
  "describable header = (\<not> isl (descriptor header))"

lemma getitem_Inl: "getitem xs i = Inl e \<Longrightarrow> e = IndexError"
  by (simp add: getitem_def split: if_splits)

lemma andthen_Inl: "andthen m k = Inl e \<Longrightarrow> m = Inl e \<or> (\<exists>x. m = Inr x \<and> k x = Inl e)"
  by (cases m) simp_all

lemma find_name_Inl: "find_name h = Inl e \<Longrightarrow> e = IndexError"
  unfolding find_name_def Let_def
  by (auto dest!: andthen_Inl dest: getitem_Inl split: if_splits)

lemma find_units_Inl: "find_units h = Inl e \<Longrightarrow> e = IndexError"
  unfolding find_units_def Let_def
  by (auto dest!: andthen_Inl dest: getitem_Inl split: if_splits)

lemma find_long_name_Inl: "find_long_name h = Inl e \<Longrightarrow> e = IndexError"
  unfolding find_long_name_def
  by (auto dest!: andthen_Inl dest: getitem_Inl)

lemma descriptor_Inl: "descriptor h = Inl e \<Longrightarrow> e = IndexError"
  unfolding descriptor_def
  by (auto dest!: andthen_Inl dest: find_name_Inl find_units_Inl find_long_name_Inl)

lemma not_describable: "\<not> describable h \<Longrightarrow> descriptor h = Inl IndexError"
  unfolding describable_def by (cases "descriptor h") (auto dest: descriptor_Inl)

lemma describableE: "describable h \<Longrightarrow> \<exists>d. descriptor h = Inr d"
  unfolding describable_def by (cases "descriptor h") auto

text \<open>The loop of a channel finder, when every matching field has a descriptor.\<close>

lemma for_each_assign:
  assumes "\<forall>h\<in>set hs. p h \<longrightarrow> describable h"
  shows "for_each (\<lambda>header self. if p header then assign_name k header self else (Inr (), self))
           hs s =
         (Inr (), if filter p hs = [] then s
                  else s\<lparr>name := (name s)(k := projr (descriptor (last (filter p hs))))\<rparr>)"
  using assms
proof (induction hs arbitrary: s)
  case Nil
  show ?case by simp
next
  case (Cons h hs)
  show ?case
  proof (cases "p h")
    case False
    with Cons show ?thesis by simp
  next
    case True
    with Cons.prems obtain d where d: "descriptor h = Inr d"
      using describableE by auto
    have step: "assign_name k h s = (Inr (), s\<lparr>name := (name s)(k := d)\<rparr>)"
      by (simp add: assign_name_def d)
    show ?thesis
      using True Cons.prems d
      by (simp add: step Cons.IH)
  qed
qed

lemma for_each_assign_raise:
  assumes "\<not> (\<forall>h\<in>set hs. p h \<longrightarrow> describable h)"
  shows "fst (for_each (\<lambda>header self. if p header then assign_name k header self
            else (Inr (), self)) hs s) = Inl IndexError"
  using assms
proof (induction hs arbitrary: s)
  case Nil
  then show ?case by simp
next
  case (Cons h hs)
  show ?case
  proof (cases "p h \<and> \<not> describable h")
    case True
    then show ?thesis by (simp add: assign_name_def not_describable)
  next
    case False
    with Cons.prems have rest: "\<not> (\<forall>h\<in>set hs. p h \<longrightarrow> describable h)" by auto
    show ?thesis
    proof (cases "p h")
      case False
      then show ?thesis using Cons.IH [OF rest] by simp
    next
      case True
      with \<open>\<not> (p h \<and> \<not> describable h)\<close> obtain d where d: "descriptor h = Inr d"
        using describableE by auto
      show ?thesis using True Cons.IH [OF rest] by (simp add: assign_name_def d)
    qed
  qed
qed

lemma fallback_loop:
  "for_each (\<lambda>s self. if py_in s header then assign_name Temp header self else (Inr (), self))
     [''Temp,'', ''Temp.'', ''Temperature''] self =
   (if fallback_temperature header then assign_name Temp header self else (Inr (), self))"
  by (cases "descriptor header") (simp_all add: fallback_temperature_def assign_name_def)


lemma fallback_body:
  "(\<lambda>header. for_each
      (\<lambda>s self. if py_in s header then assign_name Temp header self else (Inr (), self))
      [''Temp,'', ''Temp.'', ''Temperature'']) =
   (\<lambda>header self. if fallback_temperature header then assign_name Temp header self
      else (Inr (), self))"
  by (intro ext) (rule fallback_loop)

lemma find_col_temperature_primary_def:
  "find_col_temperature hs self =
     on_ok
       (for_each (\<lambda>header self. if primary_temperature header
                    then assign_name Temp header self else (Inr (), self)) hs self)
       (\<lambda>_. for_each (\<lambda>header self. if fallback_temperature header
                    then assign_name Temp header self else (Inr (), self)) hs)"
  unfolding find_col_temperature_def fallback_body primary_temperature_def ..

lemma find_col_temperature_fallback:
  assumes "\<forall>h\<in>set hs. primary_temperature h \<or> fallback_temperature h \<longrightarrow> describable h"
    and "filter fallback_temperature hs \<noteq> []"
  shows "find_col_temperature hs s =
           (Inr (), s\<lparr>name := (name s)
              (Temp := projr (descriptor (last (filter fallback_temperature hs))))\<rparr>)"
proof -
  have p: "\<forall>h\<in>set hs. primary_temperature h \<longrightarrow> describable h"
    and q: "\<forall>h\<in>set hs. fallback_temperature h \<longrightarrow> describable h"
    using assms(1) by auto
  show ?thesis
    unfolding find_col_temperature_primary_def
    by (simp add: for_each_assign [OF p] for_each_assign [OF q] assms(2))
qed

lemma find_col_temperature_status:
  "fst (find_col_temperature hs s) =
     (if \<forall>h\<in>set hs. primary_temperature h \<or> fallback_temperature h \<longrightarrow> describable h
      then Inr () else Inl IndexError)"
proof (cases "\<forall>h\<in>set hs. primary_temperature h \<longrightarrow> describable h")
  case p: True
  show ?thesis
  proof (cases "\<forall>h\<in>set hs. fallback_temperature h \<longrightarrow> describable h")
    case q: True
    from p q have "\<forall>h\<in>set hs. primary_temperature h \<or> fallback_temperature h \<longrightarrow> describable h"
      by auto
    then show ?thesis
      unfolding find_col_temperature_primary_def
      by (simp add: for_each_assign [OF p] for_each_assign [OF q])
  next
    case q: False
    then have "\<not> (\<forall>h\<in>set hs. primary_temperature h \<or> fallback_temperature h \<longrightarrow> describable h)"
      by auto
    then show ?thesis
      unfolding find_col_temperature_primary_def
      by (simp add: for_each_assign [OF p] for_each_assign_raise [OF q])
  qed
next
  case p: False
  then have n: "\<not> (\<forall>h\<in>set hs. primary_temperature h \<or> fallback_temperature h \<longrightarrow> describable h)"
    by auto
  obtain r s' where r: "for_each (\<lambda>header self. if primary_temperature header
      then assign_name Temp header self else (Inr (), self)) hs s = (r, s')"
    by (cases "for_each (\<lambda>header self. if primary_temperature header
      then assign_name Temp header self else (Inr (), self)) hs s")
  with for_each_assign_raise [OF p, of Temp s] have "r = Inl IndexError" by simp
  with r n show ?thesis
    unfolding find_col_temperature_primary_def by simp
qed

section \<open>The scan loop\<close>

text \<open>
  Predicates on one line of the file, for the statements about the scan: the line has a
  timestamp column (one of its CSV fields holds \<open>Date Time\<close> or \<open>Fecha Tiempo\<close>), and
  the scanner does not raise on the line (the CSV reader returns a record, and every
  field of it that a channel finder matches has a descriptor).
\<close>

definition is_timestamp :: "string \<Rightarrow> bool" where
  "is_timestamp header = (py_in ''Date Time'' header \<or> py_in ''Fecha Tiempo'' header)"

definition marked :: "string \<Rightarrow> bool" where
  "marked header =
     (primary_temperature header \<or> fallback_temperature header \<or> py_in ''Pres abs,'' header \<or>
      py_in ''RH,'' header \<or> py_in ''Batt, V'' header)"

definition has_timestamp :: "string \<Rightarrow> bool" where
  "has_timestamp line =
     (case csv_reader_next line of Inl e \<Rightarrow> False | Inr hs \<Rightarrow> list_ex is_timestamp hs)"

definition line_ok :: "string \<Rightarrow> bool" where
  "line_ok line =
     (case csv_reader_next line of
        Inl e \<Rightarrow> False
      | Inr hs \<Rightarrow> list_all (\<lambda>h. marked h \<longrightarrow> describable h) hs)"

lemma find_col_timestamp_None: "find_col_timestamp hs = None \<longleftrightarrow> \<not> list_ex is_timestamp hs"
  by (induction hs) (auto simp: is_timestamp_def)

lemma for_each_assign_status:
  "fst (for_each (\<lambda>header self. if p header then assign_name k header self
          else (Inr (), self)) hs s) =
     (if \<forall>h\<in>set hs. p h \<longrightarrow> describable h then Inr () else Inl IndexError)"
  using for_each_assign [of hs p k s] for_each_assign_raise [of hs p k s] by auto

lemma fst_on_ok:
  "fst (on_ok r k) = (case fst r of Inl e \<Rightarrow> Inl e | Inr x \<Rightarrow> fst (k x (snd r)))"
  by (cases r) (auto simp: on_ok_def split: sum.splits)

lemma find_columns_status:
  "fst (find_columns l s) =
     (case csv_reader_next l of
        Inl e \<Rightarrow> Inl e
      | Inr hs \<Rightarrow> if \<forall>h\<in>set hs. marked h \<longrightarrow> describable h then Inr () else Inl IndexError)"
proof (cases "csv_reader_next l")
  case (Inl e)
  then show ?thesis by (simp add: find_columns_raise)
next
  case (Inr hs)
  have "fst (find_columns l s) =
      (if (\<forall>h\<in>set hs. primary_temperature h \<or> fallback_temperature h \<longrightarrow> describable h) \<and>
          (\<forall>h\<in>set hs. py_in ''Pres abs,'' h \<longrightarrow> describable h) \<and>
          (\<forall>h\<in>set hs. py_in ''RH,'' h \<longrightarrow> describable h) \<and>
          (\<forall>h\<in>set hs. py_in ''Batt, V'' h \<longrightarrow> describable h)
       then Inr () else Inl IndexError)"
    unfolding find_columns_def Inr
    by (simp add: fst_on_ok find_col_temperature_status find_col_preassure_def
        find_col_rh_def find_col_battery_def for_each_assign_status)
  also have "\<dots> = (if \<forall>h\<in>set hs. marked h \<longrightarrow> describable h then Inr () else Inl IndexError)"
    by (auto simp: marked_def)
  finally show ?thesis by (simp add: Inr)
qed

lemma scan_line_status:
  "fst (scan_line l s) = (if line_ok l then Inr () else
     (case csv_reader_next l of Inl e \<Rightarrow> Inl e | Inr hs \<Rightarrow> Inl IndexError))"
  by (simp add: scan_line_def Let_def find_columns_status line_ok_def list_all_iff
      split: sum.splits)

lemma scan_line_timestamp:
  "timestamp (snd (scan_line l s)) =
     (case csv_reader_next l of Inl e \<Rightarrow> timestamp s | Inr hs \<Rightarrow> find_col_timestamp hs)"
  by (simp add: scan_line_def Let_def find_columns_timestamp split: sum.splits)

lemma scan_line_headers:
  "headers (snd (scan_line l s)) =
     (case csv_reader_next l of Inl e \<Rightarrow> headers s | Inr hs \<Rightarrow> Some hs)"
  by (simp add: scan_line_def Let_def find_columns_headers split: sum.splits)

lemma scan_line_title:
  "title (snd (scan_line l s)) =
     (if title s = None then Some (py_split CHR '':'' (py_strip l)) else title s)"
  by (simp add: scan_line_def Let_def find_columns_title)

lemma scan_line_sn:
  "sn (snd (scan_line l s)) = (if sn s = None then SN_REGEX_search l else sn s)"
  by (auto simp: scan_line_def Let_def find_columns_sn)


lemma scan_step:
  assumes "timestamp s = None" and "f s = l # ls" and "line_ok l"
  shows "find_headers_while h s = find_headers_while (Some l) (snd (scan_line l (s\<lparr>f := ls\<rparr>)))"
proof -
  obtain r s2 where run: "scan_line l (s\<lparr>f := ls\<rparr>) = (r, s2)"
    by (cases "scan_line l (s\<lparr>f := ls\<rparr>)")
  have "r = Inr ()"
    using scan_line_status [of l "s\<lparr>f := ls\<rparr>"] assms(3) run by simp
  then show ?thesis
    using assms(1,2) by (subst find_headers_while.simps) (simp add: next_line_def run)
qed

lemma scan_step_raise:
  assumes "timestamp s = None" and "f s = l # ls" and "\<not> line_ok l"
  shows "\<exists>e. find_headers_while h s = (Inl e, snd (scan_line l (s\<lparr>f := ls\<rparr>)))"
proof -
  obtain r s2 where run: "scan_line l (s\<lparr>f := ls\<rparr>) = (r, s2)"
    by (cases "scan_line l (s\<lparr>f := ls\<rparr>)")
  have "\<exists>e. r = Inl e"
    using scan_line_status [of l "s\<lparr>f := ls\<rparr>"] assms(3) run by (auto split: sum.splits)
  then show ?thesis
    using assms(1,2) by (subst find_headers_while.simps) (auto simp: next_line_def run)
qed

lemma scan_done:
  "timestamp s \<noteq> None \<Longrightarrow> find_headers_while (Some l) s = (Inr l, s)"
  by (subst find_headers_while.simps) auto

lemma scan_end:
  "timestamp s = None \<Longrightarrow> f s = [] \<Longrightarrow> find_headers_while h s = (Inl StopIteration, s)"
  by (subst find_headers_while.simps) (simp add: next_line_def)

lemma scan_exhausted:
  assumes "timestamp s = None" and "\<forall>l\<in>set (f s). line_ok l \<and> \<not> has_timestamp l"
  shows "\<exists>s'. find_headers_while h s = (Inl StopIteration, s') \<and> f s' = [] \<and>
           timestamp s' = None"
  using assms
proof (induction "f s" arbitrary: s h)
  case Nil
  then show ?case by (simp add: scan_end)
next
  case (Cons l ls)
  let ?s2 = "snd (scan_line l (s\<lparr>f := ls\<rparr>))"
  from Cons.hyps(2) [symmetric] Cons.prems(2) have ok: "line_ok l" and no: "\<not> has_timestamp l"
    and rest: "\<forall>l\<in>set ls. line_ok l \<and> \<not> has_timestamp l"
    by simp_all
  from ok obtain hs where hs: "csv_reader_next l = Inr hs"
    by (auto simp: line_ok_def split: sum.splits)
  have f2: "f ?s2 = ls" by (simp add: scan_line_f)
  have t2: "timestamp ?s2 = None"
    using no hs by (simp add: scan_line_timestamp has_timestamp_def find_col_timestamp_None)
  have step: "find_headers_while h s = find_headers_while (Some l) ?s2"
    using Cons.prems(1) Cons.hyps(2) [symmetric] ok by (rule scan_step)
  from Cons.hyps(1) [of ?s2 "Some l"] f2 t2 rest
  show ?case by (simp add: step)
qed

lemma scan_found:
  assumes "timestamp s = None" and "f s = pre @ l # rest"
    and "\<forall>p\<in>set pre. line_ok p \<and> \<not> has_timestamp p"
    and "line_ok l" and "has_timestamp l"
  shows "\<exists>s' hs. find_headers_while h s = (Inr l, s') \<and> f s' = rest \<and>
           csv_reader_next l = Inr hs \<and> headers s' = Some hs \<and>
           timestamp s' = find_col_timestamp hs \<and> timestamp s' \<noteq> None"
  using assms(1,2,3)
proof (induction pre arbitrary: s h)
  case Nil
  let ?s2 = "snd (scan_line l (s\<lparr>f := rest\<rparr>))"
  from assms(4) obtain hs where hs: "csv_reader_next l = Inr hs"
    by (auto simp: line_ok_def split: sum.splits)
  have f2: "f ?s2 = rest" by (simp add: scan_line_f)
  have t2: "timestamp ?s2 = find_col_timestamp hs"
    using hs by (simp add: scan_line_timestamp)
  have t3: "find_col_timestamp hs \<noteq> None"
    using assms(5) hs by (simp add: has_timestamp_def find_col_timestamp_None)
  have h2: "headers ?s2 = Some hs"
    using hs by (simp add: scan_line_headers)
  have "find_headers_while h s = find_headers_while (Some l) ?s2"
    using Nil.prems(1) _ assms(4) by (rule scan_step) (use Nil.prems(2) in simp)
  also have "\<dots> = (Inr l, ?s2)"
    using t2 t3 by (intro scan_done) simp
  finally show ?case using f2 t2 t3 h2 hs by simp
next
  case (Cons p pre)
  let ?s2 = "snd (scan_line p (s\<lparr>f := pre @ l # rest\<rparr>))"
  from Cons.prems(3) have ok: "line_ok p" and no: "\<not> has_timestamp p"
    and more: "\<forall>p\<in>set pre. line_ok p \<and> \<not> has_timestamp p"
    by simp_all
  from ok obtain hs where hs: "csv_reader_next p = Inr hs"
    by (auto simp: line_ok_def split: sum.splits)
  have f2: "f ?s2 = pre @ l # rest" by (simp add: scan_line_f)
  have t2: "timestamp ?s2 = None"
    using no hs by (simp add: scan_line_timestamp has_timestamp_def find_col_timestamp_None)
  have step: "find_headers_while h s = find_headers_while (Some p) ?s2"
    using Cons.prems(1) _ ok by (rule scan_step) (use Cons.prems(2) in simp)
  show ?case
    using Cons.IH [OF t2 f2 more, of "Some p"] by (simp add: step)
qed


lemma next_line_Cons: "f s = l # ls \<Longrightarrow> next_line s = (Inr l, s\<lparr>f := ls\<rparr>)"
  by (simp add: next_line_def)

lemma scan_unfold:
  assumes "timestamp s = None" and "f s = l # ls" and "scan_line l (s\<lparr>f := ls\<rparr>) = (r, s2)"
  shows "find_headers_while h s =
           (case r of Inl e \<Rightarrow> (Inl e, s2) | Inr u \<Rightarrow> find_headers_while (Some l) s2)"
  using assms by (subst find_headers_while.simps) (simp add: next_line_def split: sum.splits)

lemma scan_stopped:
  "timestamp s \<noteq> None \<Longrightarrow> snd (find_headers_while h s) = s"
  by (subst find_headers_while.simps) (auto split: option.splits)

lemma scan_title:
  "title (snd (find_headers_while h s)) =
     (if title s = None \<and> timestamp s = None
      then (case f s of [] \<Rightarrow> None | l # ls \<Rightarrow> Some (py_split CHR '':'' (py_strip l)))
      else title s)"
proof (induction h s rule: find_headers_while.induct)
  case (1 header self)
  show ?case
  proof (cases "timestamp self = None")
    case False
    then show ?thesis by (auto simp: scan_stopped)
  next
    case True
    show ?thesis
    proof (cases "f self")
      case Nil
      with True show ?thesis by (simp add: scan_end)
    next
      case (Cons l ls)
      obtain r s2 where run: "scan_line l (self\<lparr>f := ls\<rparr>) = (r, s2)"
        by (cases "scan_line l (self\<lparr>f := ls\<rparr>)")
      have t2: "title s2 =
          (if title self = None then Some (py_split CHR '':'' (py_strip l)) else title self)"
        using scan_line_title [of l "self\<lparr>f := ls\<rparr>"] run by simp
      show ?thesis
      proof (cases r)
        case (Inl e)
        then show ?thesis
          using scan_unfold [OF True Cons run, of header] t2 True Cons by simp
      next
        case (Inr u)
        have "title (snd (find_headers_while (Some l) s2)) = title s2"
          using "1.IH" [OF True next_line_Cons [OF Cons] run [unfolded Inr]] t2
          by (simp split: if_splits)
        then show ?thesis
          using scan_unfold [OF True Cons run, of header] t2 True Cons Inr by simp
      qed
    qed
  qed
qed

lemma scan_no_serial:
  "sn s = None \<Longrightarrow> \<forall>l\<in>set (f s). SN_REGEX_search l = None \<Longrightarrow>
   sn (snd (find_headers_while h s)) = None"
proof (induction h s rule: find_headers_while.induct)
  case (1 header self)
  show ?case
  proof (cases "timestamp self = None")
    case False
    then show ?thesis using "1.prems" by (simp add: scan_stopped)
  next
    case True
    show ?thesis
    proof (cases "f self")
      case Nil
      with True "1.prems" show ?thesis by (simp add: scan_end)
    next
      case (Cons l ls)
      obtain r s2 where run: "scan_line l (self\<lparr>f := ls\<rparr>) = (r, s2)"
        by (cases "scan_line l (self\<lparr>f := ls\<rparr>)")
      have sn2: "sn s2 = None"
        using scan_line_sn [of l "self\<lparr>f := ls\<rparr>"] run "1.prems" Cons by simp
      have f2: "f s2 = ls"
        using scan_line_f [of l "self\<lparr>f := ls\<rparr>"] run by simp
      show ?thesis
      proof (cases r)
        case (Inl e)
        then show ?thesis
          using scan_unfold [OF True Cons run, of header] sn2 by simp
      next
        case (Inr u)
        have "sn (snd (find_headers_while (Some l) s2)) = None"
          using "1.IH" [OF True next_line_Cons [OF Cons] run [unfolded Inr] sn2] f2
            "1.prems"(2) Cons
          by simp
        then show ?thesis
          using scan_unfold [OF True Cons run, of header] Inr by simp
      qed
    qed
  qed
qed

section \<open>The descriptor functions on single fields\<close>

text \<open>
  C8: for the header field \<open>Temp, \<degree>C (LGR S/N: 1, SEN S/N: 1, LBL: WaterTemp)\<close> the
  display name (\<open>find_name\<close>) is \<open>WaterTemp\<close>, the text after the tag \<open>LBL:\<close> in the
  segment after the last comma, and the long name (\<open>find_long_name\<close>) is still \<open>Temp\<close>,
  the text before the first comma.
\<close>

theorem find_name_label_override:
  "find_name (''Temp, '' @ [CHR 0xB0] @ ''C (LGR S/N: 1, SEN S/N: 1, LBL: WaterTemp)'')
     = Inr ''WaterTemp'' \<and>
   find_long_name (''Temp, '' @ [CHR 0xB0] @ ''C (LGR S/N: 1, SEN S/N: 1, LBL: WaterTemp)'')
     = Inr ''Temp''"
  by (simp add: field_eval str_eval)

text \<open>
  C3, as the code has it: on a header field without a comma \<open>find_units\<close> does not
  return a string, it raises \<open>IndexError\<close> (the split at the comma has one part only
  and its second part is read), and so does \<open>find_name\<close>; on a field with a comma
  \<open>find_units\<close> returns a string.
\<close>

theorem find_units_needs_comma:
  "(CHR '','' \<notin> set header \<longrightarrow>
      find_units header = Inl IndexError \<and> find_name header = Inl IndexError) \<and>
   (CHR '','' \<in> set header \<longrightarrow> (\<exists>units. find_units header = Inr units))"
proof (intro conjI impI)
  assume no: "CHR '','' \<notin> set header"
  show "find_units header = Inl IndexError"
    using no by (simp add: find_units_def py_split_max_no_sep getitem_def)
  show "find_name header = Inl IndexError"
    using no by (simp add: find_name_def py_rsplit_max_no_sep getitem_def)
next
  assume yes: "CHR '','' \<in> set header"
  have "1 < length (py_split_max CHR '','' 2 header)"
    using py_split_max_sep [OF yes, of 1] by (simp add: numeral_2_eq_2)
  then show "\<exists>units. find_units header = Inr units"
    by (simp add: find_units_def getitem_def Let_def)
qed

theorem find_units_needs_comma_witness:
  "find_units ''Temp'' = Inl IndexError \<and> find_name ''Temp'' = Inl IndexError \<and>
   find_units ''Temp, C'' = Inr ''C''"
  using find_units_needs_comma [of "''Temp''"] find_units_needs_comma [of "''Temp, C''"]
  by (simp add: field_eval str_eval)

text \<open>
  The field \<open>Temperature\<close> has no comma, and \<open>find_units\<close> raises on it: it is not
  total on the fields without a comma.
\<close>

theorem find_units_total_counterexample:
  "CHR '','' \<notin> set ''Temperature'' \<and> find_units ''Temperature'' = Inl IndexError"
  by (simp add: field_eval str_eval)

section \<open>The temperature slot\<close>

text \<open>
  C6, as the code has it: when a header record holds a field of the primary pass
  (\<open>High Res. Temp.\<close> or \<open>High-Res Temp\<close>) and another field of the fallback pass
  (\<open>Temp,\<close>, \<open>Temp.\<close> or \<open>Temperature\<close>), and every field that either pass matches has a
  descriptor (\<open>find_name\<close>, \<open>find_long_name\<close> and \<open>find_units\<close> return on it),
  \<open>find_col_temperature\<close> returns with the temperature slot set to the descriptor of the
  last field, in the order of the record, that the fallback pass matches: the fallback
  pass runs after the primary pass and overwrites its result.
\<close>

theorem temperature_fallback_overwrites:
  assumes "p \<in> set hs" and "primary_temperature p"
    and "q \<in> set hs" and "fallback_temperature q" and "p \<noteq> q"
    and "\<forall>h\<in>set hs. primary_temperature h \<or> fallback_temperature h \<longrightarrow> describable h"
  shows "\<exists>h d. filter fallback_temperature hs \<noteq> [] \<and>
           h = last (filter fallback_temperature hs) \<and> descriptor h = Inr d \<and>
           find_col_temperature hs self = (Inr (), self\<lparr>name := (name self)(Temp := d)\<rparr>)"
proof -
  from assms(3,4) have ne: "filter fallback_temperature hs \<noteq> []"
    by (auto simp: filter_empty_conv)
  let ?h = "last (filter fallback_temperature hs)"
  from ne have "?h \<in> set (filter fallback_temperature hs)" by (rule last_in_set)
  then have "?h \<in> set hs" and "fallback_temperature ?h" by auto
  with assms(6) obtain d where d: "descriptor ?h = Inr d"
    using describableE by blast
  show ?thesis
    using find_col_temperature_fallback [OF assms(6) ne, of self] d ne by simp
qed

text \<open>
  The fallback field \<open>Temp, F (S/N: 1, LBL: Water)\<close> stands before the primary field
  \<open>High-Res Temp (a), C\<close>, which the fallback pass does not match: the slot holds the
  descriptor of the fallback field.
\<close>

theorem temperature_fallback_overwrites_witness:
  "primary_temperature ''High-Res Temp (a), C'' \<and>
   \<not> fallback_temperature ''High-Res Temp (a), C'' \<and>
   fallback_temperature ''Temp, F (S/N: 1, LBL: Water)'' \<and>
   find_col_temperature [''Temp, F (S/N: 1, LBL: Water)'', ''High-Res Temp (a), C'']
       (open_file []) =
     (Inr (), (open_file [])\<lparr>name := (name (open_file []))
        (Temp := [Some ''Water'', Some ''Temp'', Some ''F''])\<rparr>)"
  using temperature_fallback_overwrites [of "''High-Res Temp (a), C''"
      "[''Temp, F (S/N: 1, LBL: Water)'', ''High-Res Temp (a), C'']"
      "''Temp, F (S/N: 1, LBL: Water)''"
      "open_file []"]
  by (simp add: primary_temperature_def fallback_temperature_def describable_def
      field_eval str_eval)

text \<open>
  Without the condition on the fields the slot is not resolved: the primary field
  \<open>High-Res Temp\<close> has no comma, the primary pass raises \<open>IndexError\<close> on it, and the
  slot is left as it was, although the record holds the fallback field \<open>Temp, C\<close> too.
\<close>

theorem temperature_slot_unresolved:
  "primary_temperature ''High-Res Temp'' \<and> fallback_temperature ''Temp, C'' \<and>
   ''High-Res Temp'' \<noteq> ''Temp, C'' \<and>
   find_col_temperature [''High-Res Temp'', ''Temp, C''] (open_file []) =
     (Inl IndexError, open_file [])"
  by (simp add: primary_temperature_def fallback_temperature_def find_col_temperature_def
      assign_name_def field_eval str_eval)

section \<open>The header scan\<close>

text \<open>Lines of a small file: a title, the line of the column names, a row of data.\<close>

definition title_line :: string where
  "title_line = ''Plot Title: t'' @ [CHR 0x0A]"

definition column_line :: string where
  "column_line =
     [CHR 0x22] @ ''Date Time'' @ [CHR 0x22] @ '','' @
     [CHR 0x22] @ ''Temp, C'' @ [CHR 0x22] @ [CHR 0x0A]"

definition data_line :: string where
  "data_line = ''1,2'' @ [CHR 0x0A]"

lemmas line_eval = line_ok_def has_timestamp_def is_timestamp_def marked_def describable_def
  primary_temperature_def fallback_temperature_def

text \<open>
  C7: the header scan does not read past the line of the column names. When the file
  still holds the lines \<open>pre\<close>, then \<open>line\<close>, then \<open>rest\<close>, no line of \<open>pre\<close> has a
  timestamp column, \<open>line\<close> has one, and the scanner raises on none of these lines, then
  \<open>find_headers\<close> returns \<open>line\<close> and leaves exactly \<open>rest\<close> in the file: the first row
  of data is the next line that the table library reads. The headers are the CSV
  fields of \<open>line\<close> and the timestamp index is set.
\<close>

theorem header_scan_stops_at_column_line:
  assumes "timestamp self = None" and "f self = pre @ line # rest"
    and "\<forall>p\<in>set pre. line_ok p \<and> \<not> has_timestamp p"
    and "line_ok line" and "has_timestamp line"
  shows "\<exists>self' hs. find_headers self = (Inr line, self') \<and> f self' = rest \<and>
           csv_reader_next line = Inr hs \<and> headers self' = Some hs \<and>
           timestamp self' = find_col_timestamp hs \<and> timestamp self' \<noteq> None"
  unfolding find_headers_def using assms by (rule scan_found)

theorem header_scan_stops_at_column_line_witness:
  "line_ok title_line \<and> \<not> has_timestamp title_line \<and> line_ok column_line \<and>
   has_timestamp column_line \<and>
   fst (find_headers (open_file [title_line, column_line, data_line])) = Inr column_line \<and>
   f (snd (find_headers (open_file [title_line, column_line, data_line]))) = [data_line]"
proof -
  have a: "line_ok title_line" and b: "\<not> has_timestamp title_line"
    unfolding title_line_def by (simp_all add: line_eval csv_eval field_eval str_eval)
  have c: "line_ok column_line" and d: "has_timestamp column_line"
    unfolding column_line_def by (simp_all add: line_eval csv_eval field_eval str_eval)
  have "\<exists>self' hs. find_headers (open_file [title_line, column_line, data_line]) =
      (Inr column_line, self') \<and> f self' = [data_line] \<and>
      csv_reader_next column_line = Inr hs \<and> headers self' = Some hs \<and>
      timestamp self' = find_col_timestamp hs \<and> timestamp self' \<noteq> None"
    by (rule header_scan_stops_at_column_line [where pre = "[title_line]"])
       (simp_all add: open_file_def a b c d)
  with a b c d show ?thesis by auto
qed

text \<open>
  C1, as the code has it: when no line left in the file has a timestamp column and the
  scanner raises on none of them, \<open>find_headers\<close> fails with the exception of the
  exhausted file (\<open>StopIteration\<close>, raised by \<open>next(self.f)\<close>) after it has read every
  line, and scanning again fails in the same way at once.
\<close>

theorem header_scan_exhausted:
  assumes "timestamp self = None"
    and "\<forall>l\<in>set (f self). line_ok l \<and> \<not> has_timestamp l"
  shows "\<exists>self'. find_headers self = (Inl StopIteration, self') \<and> f self' = [] \<and>
           find_headers self' = (Inl StopIteration, self')"
proof -
  from scan_exhausted [OF assms, of None] obtain self'
    where "find_headers_while None self = (Inl StopIteration, self')" and "f self' = []"
      and "timestamp self' = None"
    by blast
  then show ?thesis
    by (auto simp: find_headers_def scan_end)
qed

theorem header_scan_exhausted_witness:
  "line_ok title_line \<and> \<not> has_timestamp title_line \<and> line_ok data_line \<and>
   \<not> has_timestamp data_line \<and>
   fst (find_headers (open_file [title_line, data_line])) = Inl StopIteration \<and>
   f (snd (find_headers (open_file [title_line, data_line]))) = [] \<and>
   find_headers (snd (find_headers (open_file [title_line, data_line]))) =
     (Inl StopIteration, snd (find_headers (open_file [title_line, data_line])))"
proof -
  have a: "line_ok title_line" and b: "\<not> has_timestamp title_line"
    unfolding title_line_def by (simp_all add: line_eval csv_eval field_eval str_eval)
  have c: "line_ok data_line" and d: "\<not> has_timestamp data_line"
    unfolding data_line_def by (simp_all add: line_eval csv_eval field_eval str_eval)
  have "\<exists>self'. find_headers (open_file [title_line, data_line]) = (Inl StopIteration, self') \<and>
      f self' = [] \<and> find_headers self' = (Inl StopIteration, self')"
    by (rule header_scan_exhausted) (simp_all add: open_file_def a b c d)
  with a b c d show ?thesis by auto
qed

text \<open>
  Without the condition the scan can fail earlier and otherwise: the line
  \<open>Temperature\<close> has no timestamp column, but its only field matches the fallback pass
  of the temperature finder and has no comma, so the scan raises \<open>IndexError\<close> on it and
  the next line is never read.
\<close>

definition temperature_line :: string where
  "temperature_line = ''Temperature'' @ [CHR 0x0A]"

theorem header_scan_raises_before_exhaustion:
  "\<not> has_timestamp temperature_line \<and> \<not> has_timestamp data_line \<and>
   fst (find_headers (open_file [temperature_line, data_line])) = Inl IndexError \<and>
   f (snd (find_headers (open_file [temperature_line, data_line]))) = [data_line]"
  unfolding temperature_line_def data_line_def
  by (simp add: line_eval scan_eval csv_eval field_eval str_eval)

section \<open>The title and the metadata\<close>

lemma py_split_no_sep: "sep \<notin> set s \<Longrightarrow> py_split sep s = [s]"
  by (induction s) auto

lemma py_split_parts: "x \<in> set (py_split sep s) \<Longrightarrow> sep \<notin> set x"
  by (induction s arbitrary: x) (auto split: if_splits list.splits)

lemma py_split_join: "concat (map ((#) sep) (py_split sep s)) = sep # s"
  by (induction s) (auto split: list.splits)

lemma set_strip_where: "set (strip_where p s) \<subseteq> set s"
  unfolding strip_where_def
  by (metis set_dropWhileD set_rev subsetI)

lemma set_py_strip: "set (py_strip s) \<subseteq> set s"
  by (simp add: py_strip_def set_strip_where)

lemma open_file_fields [simp]:
  "f (open_file ls) = ls" "title (open_file ls) = None" "sn (open_file ls) = None"
  "timestamp (open_file ls) = None" "headers (open_file ls) = None"
  by (simp_all add: open_file_def)

lemma find_headers_title:
  "title (snd (find_headers (open_file (line # rest)))) =
     Some (py_split CHR '':'' (py_strip line))"
  by (simp add: find_headers_def scan_title)

lemma from_csv_cases:
  "from_csv ls =
     (case find_headers (open_file ls) of
        (Inl e, self) \<Rightarrow> (Inl e, self)
      | (Inr h, self) \<Rightarrow>
          (case make_metadata self of Inl e \<Rightarrow> (Inl e, self) | Inr m \<Rightarrow> (Inr m, self)))"
  by (simp add: from_csv_def on_ok_def split: prod.splits sum.splits)

lemma from_csv_without_serial:
  assumes "\<forall>l\<in>set file_lines. SN_REGEX_search l = None"
  shows "\<exists>e self. from_csv file_lines = (Inl e, self)"
proof -
  obtain r s where r: "find_headers (open_file file_lines) = (r, s)"
    by (cases "find_headers (open_file file_lines)")
  have "sn s = None"
    using scan_no_serial [of "open_file file_lines" None] assms r
    by (simp add: find_headers_def)
  then have "\<exists>e. make_metadata s = Inl e"
    by (cases "title s")
       (auto simp: make_metadata_def andthen_def Let_def split: sum.splits)
  with r show ?thesis
    by (cases r) (auto simp: from_csv_cases)
qed

text \<open>
  C10: when the first line of the file holds no colon, \<open>from_csv\<close> raises. The title is
  the stripped line split at its colons, a list of one element here, and it stays so to
  the end of the scan; where the scan itself succeeds (a line of column names was
  found), building the metadata reads the element \<open>[1]\<close> of the title and raises
  \<open>IndexError\<close>.
\<close>

theorem from_csv_raises_without_colon:
  assumes "CHR '':'' \<notin> set line"
  shows "(\<exists>e self. from_csv (line # rest) = (Inl e, self)) \<and>
         (\<forall>h self. find_headers (open_file (line # rest)) = (Inr h, self) \<longrightarrow>
            title self = Some [py_strip line] \<and>
            from_csv (line # rest) = (Inl IndexError, self))"
proof -
  from assms have "CHR '':'' \<notin> set (py_strip line)"
    using set_py_strip by blast
  then have t: "title (snd (find_headers (open_file (line # rest)))) = Some [py_strip line]"
    by (simp add: find_headers_title py_split_no_sep)
  have found: "title self = Some [py_strip line] \<and> from_csv (line # rest) = (Inl IndexError, self)"
    if "find_headers (open_file (line # rest)) = (Inr h, self)" for h self
  proof -
    from that t have "title self = Some [py_strip line]" by simp
    then have "make_metadata self = Inl IndexError"
      by (simp add: make_metadata_def getitem_def)
    with that \<open>title self = Some [py_strip line]\<close> show ?thesis
      by (simp add: from_csv_cases)
  qed
  obtain r self where r: "find_headers (open_file (line # rest)) = (r, self)"
    by (cases "find_headers (open_file (line # rest))")
  have "\<exists>e self. from_csv (line # rest) = (Inl e, self)"
  proof (cases r)
    case (Inl e)
    with r show ?thesis by (simp add: from_csv_cases)
  next
    case (Inr h)
    with r found show ?thesis by blast
  qed
  with found show ?thesis by blast
qed

text \<open>A title line without a colon, and a line of column names that holds a serial number.\<close>

definition no_colon_line :: string where
  "no_colon_line = ''Plot Title'' @ [CHR 0x0A]"

definition serial_column_line :: string where
  "serial_column_line =
     [CHR 0x22] @ ''Date Time'' @ [CHR 0x22] @ '','' @
     [CHR 0x22] @ ''Temp, C (LGR S/N: 1)'' @ [CHR 0x22] @ [CHR 0x0A]"

theorem from_csv_raises_without_colon_witness:
  "CHR '':'' \<notin> set no_colon_line \<and>
   fst (find_headers (open_file [no_colon_line, serial_column_line])) = Inr serial_column_line \<and>
   fst (from_csv [no_colon_line, serial_column_line]) = Inl IndexError"
proof -
  have nc: "CHR '':'' \<notin> set no_colon_line"
    by (simp add: no_colon_line_def)
  have found: "fst (find_headers (open_file [no_colon_line, serial_column_line])) =
      Inr serial_column_line"
    unfolding no_colon_line_def serial_column_line_def
    by (simp add: scan_eval csv_eval field_eval str_eval)
  then obtain self where
    "find_headers (open_file [no_colon_line, serial_column_line]) = (Inr serial_column_line, self)"
    by (cases "find_headers (open_file [no_colon_line, serial_column_line])") auto
  with from_csv_raises_without_colon [OF nc, of "[serial_column_line]"]
  have "from_csv [no_colon_line, serial_column_line] = (Inl IndexError, self)"
    by blast
  with nc found show ?thesis by simp
qed

text \<open>
  C5, as the code has it: the title is the stripped first line split at every colon
  (\<open>header.strip().split(":")\<close> has no limit). When \<open>from_csv\<close> returns the metadata, the
  first line has a colon, the title key is the text before the first colon, and the
  title value is the stripped text between the first colon and the second colon (or
  the end of the line when there is one colon only); the text after a second colon
  is not part of the value. The other entry of the metadata is the serial number.
\<close>

theorem title_split_at_every_colon:
  assumes "from_csv (line # rest) = (Inr metadata, self)"
  shows "\<exists>key val others serial.
           py_split CHR '':'' (py_strip line) = key # val # others \<and>
           py_strip line = key @ CHR '':'' # val @ concat (map ((#) CHR '':'') others) \<and>
           CHR '':'' \<notin> set key \<and> CHR '':'' \<notin> set val \<and>
           title self = Some (key # val # others) \<and> sn self = Some serial \<and>
           metadata = [key \<mapsto> py_strip val, ''S/N'' \<mapsto> py_strip serial]"
proof -
  obtain r s where r: "find_headers (open_file (line # rest)) = (r, s)"
    by (cases "find_headers (open_file (line # rest))")
  with assms obtain h where h: "r = Inr h" and s: "s = self"
    and md: "make_metadata self = Inr metadata"
    by (auto simp: from_csv_cases split: sum.splits)
  have t: "title self = Some (py_split CHR '':'' (py_strip line))"
    using find_headers_title [of line rest] r s by simp
  from md t obtain key val others
    where sp: "py_split CHR '':'' (py_strip line) = key # val # others"
    by (cases "py_split CHR '':'' (py_strip line)" rule: list.exhaust [case_product list.exhaust])
       (auto simp: make_metadata_def getitem_def neq_Nil_conv split: list.splits if_splits)
  from md t sp obtain serial where serial: "sn self = Some serial"
    and m: "metadata = [key \<mapsto> py_strip val, ''S/N'' \<mapsto> py_strip serial]"
    by (auto simp: make_metadata_def getitem_def split: option.splits)
  have "CHR '':'' # py_strip line =
      CHR '':'' # key @ CHR '':'' # val @ concat (map ((#) CHR '':'') others)"
    using py_split_join [of "CHR '':''" "py_strip line"] sp by simp
  then have j: "py_strip line = key @ CHR '':'' # val @ concat (map ((#) CHR '':'') others)"
    by simp
  have "CHR '':'' \<notin> set key" and "CHR '':'' \<notin> set val"
    using py_split_parts [of _ "CHR '':''" "py_strip line"] sp by simp_all
  with sp j t serial m show ?thesis by simp
qed

text \<open>
  On the title line \<open>Plot Title: a:b\<close> the text after the first colon is \<open>a:b\<close>, and
  the title value in the metadata is \<open>a\<close>.
\<close>

definition two_colon_line :: string where
  "two_colon_line = ''Plot Title: a:b'' @ [CHR 0x0A]"

theorem title_split_at_every_colon_witness:
  "fst (from_csv [two_colon_line, serial_column_line]) =
     Inr [''Plot Title'' \<mapsto> ''a'', ''S/N'' \<mapsto> ''1''] \<and>
   py_split CHR '':'' (py_strip two_colon_line) = [''Plot Title'', '' a'', ''b'']"
proof -
  have e: "fst (from_csv [two_colon_line, serial_column_line]) =
     Inr [''Plot Title'' \<mapsto> ''a'', ''S/N'' \<mapsto> ''1'']"
    unfolding two_colon_line_def serial_column_line_def
    by (simp add: scan_eval csv_eval field_eval str_eval)
  then obtain self where
    "from_csv [two_colon_line, serial_column_line] =
       (Inr [''Plot Title'' \<mapsto> ''a'', ''S/N'' \<mapsto> ''1''], self)"
    by (cases "from_csv [two_colon_line, serial_column_line]") auto
  from title_split_at_every_colon [OF this] obtain key val others
    where "py_split CHR '':'' (py_strip two_colon_line) = key # val # others"
    by blast
  moreover have "py_split CHR '':'' (py_strip two_colon_line) = [''Plot Title'', '' a'', ''b'']"
    unfolding two_colon_line_def by (simp add: str_eval)
  ultimately show ?thesis using e by simp
qed

theorem title_value_stops_at_second_colon:
  "py_strip (tl (dropWhile (\<lambda>c. c \<noteq> CHR '':'') (py_strip two_colon_line))) = ''a:b'' \<and>
   fst (from_csv [two_colon_line, serial_column_line]) =
     Inr [''Plot Title'' \<mapsto> ''a'', ''S/N'' \<mapsto> ''1'']"
  unfolding two_colon_line_def serial_column_line_def
  by (simp add: scan_eval csv_eval field_eval str_eval)

section \<open>The serial number\<close>

lemma startswith_append: "startswith (kw @ s) kw"
  by (induction kw) simp_all

lemma digits_after_keyword:
  "isdigit d \<Longrightarrow> digits_after kw (kw @ d # rest) = Some (takeWhile isdigit (d # rest))"
  by (simp add: digits_after_def startswith_append)

lemma SN_REGEX_match_keyword:
  assumes "kw = ''LGR S/N: '' \<or> kw = ''Serial Number:''" and "isdigit d"
  shows "SN_REGEX_match (kw @ d # rest) = Some (takeWhile isdigit (d # rest))"
  using assms(1)
proof
  assume "kw = ''LGR S/N: ''"
  then show ?thesis
    using digits_after_keyword [OF assms(2), of kw rest] by (simp add: SN_REGEX_match_def)
next
  assume kw: "kw = ''Serial Number:''"
  have "digits_after ''LGR S/N: '' (kw @ d # rest) = None"
    by (simp add: kw digits_after_def)
  then show ?thesis
    using digits_after_keyword [OF assms(2), of kw rest] kw by (simp add: SN_REGEX_match_def)
qed

lemma SN_REGEX_match_digits: "SN_REGEX_match s = Some g \<Longrightarrow> g \<noteq> [] \<and> list_all isdigit g"
  by (auto simp: SN_REGEX_match_def digits_after_def Let_def list_all_iff
      split: option.splits if_splits dest: set_takeWhileD)

lemma SN_REGEX_search_digits: "SN_REGEX_search s = Some g \<Longrightarrow> g \<noteq> [] \<and> list_all isdigit g"
  by (induction s) (auto split: option.splits dest: SN_REGEX_match_digits)

lemma SN_REGEX_search_here: "SN_REGEX_match s = Some g \<Longrightarrow> SN_REGEX_search s = Some g"
  by (cases s) simp_all

lemma SN_REGEX_search_exists:
  "SN_REGEX_match s = Some g \<Longrightarrow> \<exists>g'. SN_REGEX_search (pre @ s) = Some g'"
  by (induction pre) (auto simp: SN_REGEX_search_here split: option.splits)

lemma SN_REGEX_search_leftmost:
  "SN_REGEX_match s = Some g \<Longrightarrow> \<forall>i<length pre. SN_REGEX_match (drop i (pre @ s)) = None \<Longrightarrow>
   SN_REGEX_search (pre @ s) = Some g"
proof (induction pre)
  case Nil
  then show ?case by (simp add: SN_REGEX_search_here)
next
  case (Cons c pre)
  from Cons.prems(2) have "SN_REGEX_match (c # pre @ s) = None"
    by (auto dest: spec [of _ 0])
  moreover have "\<forall>i<length pre. SN_REGEX_match (drop i (pre @ s)) = None"
  proof (intro allI impI)
    fix i assume "i < length pre"
    with Cons.prems(2) have "SN_REGEX_match (drop (Suc i) ((c # pre) @ s)) = None"
      by (auto simp del: drop_Suc_Cons append_Cons)
    then show "SN_REGEX_match (drop i (pre @ s)) = None" by simp
  qed
  ultimately show ?case using Cons.IH [OF Cons.prems(1)] by simp
qed

lemma SN_REGEX_match_space: "SN_REGEX_match (''Serial Number: '' @ tail) = None"
  by (simp add: SN_REGEX_match_def digits_after_def isdigit_def)

text \<open>
  C4, as the code has it: the pattern is \<open>LGR S/N: \<close> or \<open>Serial Number:\<close> (this one
  without a space after the colon), followed at once by digits. When the serial
  number has not been captured and the line holds one of the two keywords followed by a
  digit, the scanner records what the search finds, which is a non-empty group of
  digits; when no match starts to the left of this occurrence, it is the longest run of
  digits after the keyword; so a line that begins with \<open>Serial Number:\<close> and a digit
  yields the digits that follow the colon. No match starts at an occurrence of
  \<open>Serial Number: \<close> with a space after the colon, whatever follows it.
\<close>

theorem serial_number_recorded:
  assumes "sn self = None" and "kw = ''LGR S/N: '' \<or> kw = ''Serial Number:''" and "isdigit d"
  shows "sn (snd (scan_line (pre @ kw @ d # rest) self)) = SN_REGEX_search (pre @ kw @ d # rest) \<and>
         (\<exists>g. SN_REGEX_search (pre @ kw @ d # rest) = Some g \<and> g \<noteq> [] \<and> list_all isdigit g) \<and>
         ((\<forall>i<length pre. SN_REGEX_match (drop i (pre @ kw @ d # rest)) = None) \<longrightarrow>
            SN_REGEX_search (pre @ kw @ d # rest) = Some (takeWhile isdigit (d # rest))) \<and>
         SN_REGEX_match (''Serial Number: '' @ tail) = None"
proof -
  note m = SN_REGEX_match_keyword [OF assms(2,3), of rest]
  from SN_REGEX_search_exists [OF m, of pre] obtain g
    where g: "SN_REGEX_search (pre @ kw @ d # rest) = Some g" by blast
  with SN_REGEX_search_digits [OF g] SN_REGEX_search_leftmost [OF m, of pre] assms(1)
  have "sn (snd (scan_line (pre @ kw @ d # rest) self)) = SN_REGEX_search (pre @ kw @ d # rest) \<and>
      (\<exists>g. SN_REGEX_search (pre @ kw @ d # rest) = Some g \<and> g \<noteq> [] \<and> list_all isdigit g) \<and>
      ((\<forall>i<length pre. SN_REGEX_match (drop i (pre @ kw @ d # rest)) = None) \<longrightarrow>
         SN_REGEX_search (pre @ kw @ d # rest) = Some (takeWhile isdigit (d # rest)))"
    by (simp add: scan_line_sn)
  with SN_REGEX_match_space [of tail] show ?thesis by blast
qed

theorem serial_number_recorded_witness:
  "sn (snd (scan_line ''#LGR S/N: 123 y'' (open_file []))) = Some ''123'' \<and>
   sn (snd (scan_line ''Serial Number:45'' (open_file []))) = Some ''45''"
proof -
  have a: "sn (open_file []) = None" by simp
  have d1: "isdigit CHR ''1''" and d4: "isdigit CHR ''4''" by (simp_all add: isdigit_def)
  have l: "\<forall>i<length ''#''.
      SN_REGEX_match (drop i (''#'' @ ''LGR S/N: '' @ CHR ''1'' # ''23 y'')) = None"
    by (simp add: SN_REGEX_match_def digits_after_def)
  from serial_number_recorded [OF a _ d1, of "''LGR S/N: ''" "''#''" "''23 y''"] l
  have "sn (snd (scan_line ''#LGR S/N: 123 y'' (open_file []))) = Some ''123''"
    by (simp add: isdigit_def)
  moreover from serial_number_recorded [OF a _ d4, of "''Serial Number:''" "[]" "''5''"]
  have "sn (snd (scan_line ''Serial Number:45'' (open_file []))) = Some ''45''"
    by (simp add: isdigit_def)
  ultimately show ?thesis by simp
qed

text \<open>
  The claim's own example fails: no serial number is recorded from the line
  \<open>Serial Number: 123\<close>, where a space stands between the colon and the digits.
\<close>

theorem serial_number_space_not_matched:
  "SN_REGEX_search ''Serial Number: 123'' = None \<and>
   sn (snd (scan_line ''Serial Number: 123'' (open_file []))) = None"
  by (simp add: scan_line_sn SN_REGEX_match_def digits_after_def isdigit_def)

text \<open>
  C2: a file in which no line matches the serial-number pattern. The scan finds the
  line of the column names and returns, the serial number is still \<open>None\<close>, and
  \<open>self.sn.strip()\<close> raises \<open>AttributeError\<close>: \<open>from_csv\<close> does not return a table
  without a serial number. By \<open>from_csv_without_serial\<close> this holds for every such file.
\<close>

theorem from_csv_raises_without_serial_number:
  "list_all (\<lambda>l. SN_REGEX_search l = None) [title_line, column_line, data_line] \<and>
   fst (find_headers (open_file [title_line, column_line, data_line])) = Inr column_line \<and>
   fst (from_csv [title_line, column_line, data_line]) = Inl AttributeError"
  unfolding title_line_def column_line_def data_line_def
  by (simp add: scan_eval csv_eval field_eval str_eval)

section \<open>The quality-control columns\<close>

lemma filter_label_single:
  "distinct (map fst cols) \<Longrightarrow> map_of cols r = Some v \<Longrightarrow>
   filter (\<lambda>c. fst c = r) cols = [(r, v)]"
proof (induction cols)
  case Nil
  then show ?case by simp
next
  case (Cons c cols)
  show ?case
  proof (cases "fst c = r")
    case True
    with Cons.prems have "snd c = v" and "r \<notin> fst ` set cols" by auto
    then have "filter (\<lambda>c. fst c = r) cols = []"
      by (auto simp: filter_empty_conv)
    with True \<open>snd c = v\<close> show ?thesis by (cases c) simp
  next
    case False
    with Cons show ?thesis by simp
  qed
qed

lemma map_of_label: "r \<in> fst ` set cols \<Longrightarrow> \<exists>v. map_of cols r = Some v"
  by (auto dest: weak_map_of_SomeI)

lemma reindex_columns:
  assumes "distinct (map fst cols)" and "set keep \<subseteq> fst ` set cols"
  shows "concat (map (\<lambda>r. filter (\<lambda>c. fst c = r) cols) keep) =
           map (\<lambda>r. (r, the (map_of cols r))) keep"
  using assms(2)
proof (induction keep)
  case Nil
  show ?case by simp
next
  case (Cons r keep)
  then obtain v where "map_of cols r = Some v"
    using map_of_label [of r cols] by auto
  with filter_label_single [OF assms(1) this] Cons show ?case by simp
qed

lemma filter_items_distinct:
  assumes "distinct (keys df)"
  shows "\<exists>df1. filter_items items df = Inr df1 \<and> rows df1 = rows df \<and>
           keys df1 = filter (\<lambda>r. r \<in> set (keys df)) items \<and>
           (\<forall>k\<in>set (keys df1). map_of (columns df1) k = map_of (columns df) k)"
proof (cases "filter (\<lambda>r. r \<in> set (keys df)) items = keys df")
  case True
  then show ?thesis by (simp add: filter_items_def)
next
  case False
  let ?keep = "filter (\<lambda>r. r \<in> set (keys df)) items"
  have sub: "set ?keep \<subseteq> fst ` set (columns df)" by (auto simp: keys_def)
  have cols: "concat (map (\<lambda>r. filter (\<lambda>c. fst c = r) (columns df)) ?keep) =
      map (\<lambda>r. (r, the (map_of (columns df) r))) ?keep"
    using assms sub by (intro reindex_columns) (simp_all add: keys_def)
  have look: "map_of (map (\<lambda>r. (r, the (map_of (columns df) r))) ?keep) k = map_of (columns df) k"
    if "k \<in> set ?keep" for k
  proof -
    from that sub obtain v where "map_of (columns df) k = Some v"
      using map_of_label [of k "columns df"] by auto
    moreover have "map_of (map (\<lambda>r. (r, the (map_of (columns df) r))) ?keep) k =
        Some (the (map_of (columns df) k))"
      using that by (simp add: map_of_map_restrict)
    ultimately show ?thesis by simp
  qed
  have res: "filter_items items df =
      Inr (df\<lparr>columns := map (\<lambda>r. (r, the (map_of (columns df) r))) ?keep\<rparr>)"
    using False assms by (simp add: filter_items_def Let_def cols)
  have k1: "keys (df\<lparr>columns := map (\<lambda>r. (r, the (map_of (columns df) r))) ?keep\<rparr>) = ?keep"
    by (simp add: keys_def comp_def)
  show ?thesis
    unfolding res using look by (simp add: k1)
qed


lemma setitem_new:
  "key \<notin> set (keys df) \<Longrightarrow>
   setitem key v df = df\<lparr>columns := columns df @ [(key, replicate (rows df) v)]\<rparr>"
  by (simp add: setitem_def)

lemma fold_setitem_new:
  assumes "distinct qs" and "set qs \<inter> set (keys df) = {}"
  shows "fold (\<lambda>q. setitem q v) qs df =
           df\<lparr>columns := columns df @ map (\<lambda>q. (q, replicate (rows df) v)) qs\<rparr>"
  using assms
proof (induction qs arbitrary: df)
  case Nil
  show ?case by simp
next
  case (Cons q qs)
  let ?df1 = "df\<lparr>columns := columns df @ [(q, replicate (rows df) v)]\<rparr>"
  from Cons.prems have new: "q \<notin> set (keys df)" by simp
  have "set qs \<inter> set (keys ?df1) = {}"
    using Cons.prems by (auto simp: keys_def)
  with Cons.prems(1) have "fold (\<lambda>q. setitem q v) qs ?df1 =
      ?df1\<lparr>columns := columns ?df1 @ map (\<lambda>q. (q, replicate (rows ?df1) v)) qs\<rparr>"
    by (intro Cons.IH) simp_all
  then show ?case by (simp add: setitem_new [OF new])
qed

lemma add_QC_keys_fold:
  "add_QC_keys df = fold (\<lambda>q. setitem q (Flag 0)) (map (\<lambda>k. Some (format_QC k)) (keys df)) df"
  by (simp add: add_QC_keys_def fold_map comp_def)

lemma format_QC_inj: "format_QC (Some a) = format_QC (Some b) \<Longrightarrow> a = b"
  by (simp add: format_QC_def)

lemma distinct_format_QC:
  "distinct ks \<Longrightarrow> None \<notin> set ks \<Longrightarrow> distinct (map (\<lambda>k. Some (format_QC k)) ks)"
proof (induction ks)
  case Nil
  show ?case by simp
next
  case (Cons k ks)
  then obtain a where a: "k = Some a" by (cases k) auto
  have "Some (format_QC k) \<notin> (\<lambda>k. Some (format_QC k)) ` set ks"
  proof
    assume "Some (format_QC k) \<in> (\<lambda>k. Some (format_QC k)) ` set ks"
    then obtain k' where k': "k' \<in> set ks" "format_QC k = format_QC k'" by auto
    with Cons.prems obtain b where "k' = Some b" by (cases k') auto
    with k' a have "k = k'" by (auto dest: format_QC_inj)
    with k' Cons.prems show False by simp
  qed
  with Cons show ?case by simp
qed


lemma map_of_const: "q \<in> set qs \<Longrightarrow> map_of (map (\<lambda>q. (q, c)) qs) q = Some c"
  by (induction qs) auto

text \<open>
  Where the labels are well behaved the loop adds one flag column for each column
  kept. Let \<open>keep\<close> be the display names of the four channel slots, in
  the order temperature, pressure, battery, humidity, that are labels of the table.
  When the labels of the table are distinct and none of them is \<open>None\<close>, the entries of
  \<open>keep\<close> are distinct, and no entry of \<open>keep\<close> with \<open>_QC\<close> appended is itself an entry of
  \<open>keep\<close>, then the table that \<open>from_csv\<close> builds has the columns \<open>keep\<close> with their data,
  followed by one column \<open><name>_QC\<close> for each of them, in the same order, with the
  flag \<open>0\<close> in every row; no column is labelled \<open>None\<close>, so that an absent channel has
  neither a data column nor a flag column.
\<close>

lemma quality_columns:
  assumes "channel_items self = Inr items"
    and "keep = filter (\<lambda>r. r \<in> set (keys df)) items"
    and "distinct (keys df)" and "None \<notin> set (keys df)" and "distinct keep"
    and "\<forall>k\<in>set keep. Some (format_QC k) \<notin> set keep"
  shows "\<exists>df'. table_columns self df = Inr df' \<and> rows df' = rows df \<and>
           keys df' = keep @ map (\<lambda>k. Some (format_QC k)) keep \<and>
           distinct (keys df') \<and> None \<notin> set (keys df') \<and>
           (\<forall>k\<in>set keep. map_of (columns df') k = map_of (columns df) k \<and>
              map_of (columns df') (Some (format_QC k)) = Some (replicate (rows df) (Flag 0)))"
proof -
  let ?qs = "map (\<lambda>k. Some (format_QC k)) keep"
  from filter_items_distinct [OF assms(3), of items] assms(2) obtain df1
    where f: "filter_items items df = Inr df1" and r1: "rows df1 = rows df"
      and k1: "keys df1 = keep"
      and c1: "\<forall>k\<in>set keep. map_of (columns df1) k = map_of (columns df) k"
    by auto
  have none: "None \<notin> set keep" using assms(2,4) by auto
  have dq: "distinct ?qs" using assms(5) none by (rule distinct_format_QC)
  have disj: "set ?qs \<inter> set (keys df1) = {}" using assms(6) k1 by auto
  let ?df' = "df1\<lparr>columns := columns df1 @ map (\<lambda>q. (q, replicate (rows df1) (Flag 0))) ?qs\<rparr>"
  have add: "add_QC_keys df1 = ?df'"
    using fold_setitem_new [OF dq disj, of "Flag 0"] by (simp add: add_QC_keys_fold k1)
  have res: "table_columns self df = Inr ?df'"
    by (simp add: table_columns_def assms(1) f add)
  have keys': "keys ?df' = keep @ ?qs"
    using k1 by (simp add: keys_def comp_def)
  have dist: "distinct (keys ?df')"
    unfolding keys' using assms(5) dq disj k1 by auto
  have data: "map_of (columns ?df') k = map_of (columns df) k" if "k \<in> set keep" for k
  proof -
    from that k1 have "k \<in> set (map fst (columns df1))" by (simp add: keys_def)
    then have "k \<in> fst ` set (columns df1)" by simp
    then obtain v where "map_of (columns df1) k = Some v"
      using map_of_label by fastforce
    with c1 that show ?thesis by (simp add: map_add_def)
  qed
  have flags: "map_of (columns ?df') (Some (format_QC k)) = Some (replicate (rows df) (Flag 0))"
    if "k \<in> set keep" for k
  proof -
    from that disj have "Some (format_QC k) \<notin> fst ` set (columns df1)"
      by (auto simp: keys_def)
    then have "map_of (columns df1) (Some (format_QC k)) = None"
      by (simp add: map_of_eq_None_iff)
    moreover have "map_of (map (\<lambda>q. (q, replicate (rows df1) (Flag 0))) ?qs) (Some (format_QC k)) =
        Some (replicate (rows df1) (Flag 0))"
      using that by (intro map_of_const) simp
    ultimately show ?thesis by (simp add: map_add_def r1)
  qed
  show ?thesis
    unfolding res using r1 keys' dist none data flags by auto
qed

text \<open>
  A file with a temperature column only: the table read from it has the row numbers
  and the temperature (renamed to its display name); the result has exactly the two
  columns \<open>Temp\<close> and \<open>Temp_QC\<close>, the second with the flag \<open>0\<close> in both rows.
\<close>

definition temperature_column_line :: string where
  "temperature_column_line =
     [CHR 0x22] @ ''#'' @ [CHR 0x22] @ '','' @ [CHR 0x22] @ ''Date Time'' @ [CHR 0x22] @ '','' @
     [CHR 0x22] @ ''Temp, C (LGR S/N: 1)'' @ [CHR 0x22] @ [CHR 0x0A]"

definition temperature_frame :: "string frame" where
  "temperature_frame =
     \<lparr>rows = 2, columns = [(Some ''#'', [Data ''1'', Data ''2'']),
                          (Some ''Temp'', [Data ''20.5'', Data ''20.7''])]\<rparr>"

lemma quality_columns_example:
  "channel_items (snd (from_csv [title_line, temperature_column_line])) =
     Inr [Some ''Temp'', None, None, None] \<and>
   table_columns (snd (from_csv [title_line, temperature_column_line])) temperature_frame =
     Inr \<lparr>rows = 2, columns = [(Some ''Temp'', [Data ''20.5'', Data ''20.7'']),
                              (Some ''Temp_QC'', [Flag 0, Flag 0])]\<rparr>"
proof -
  let ?self = "snd (from_csv [title_line, temperature_column_line])"
  have items: "channel_items ?self = Inr [Some ''Temp'', None, None, None]"
    unfolding title_line_def temperature_column_line_def
    by (simp add: channel_items_def scan_eval csv_eval field_eval str_eval)
  have keep: "[Some ''Temp''] =
      filter (\<lambda>r. r \<in> set (keys temperature_frame)) [Some ''Temp'', None, None, None]"
    by (simp add: temperature_frame_def keys_def)
  from quality_columns [OF items keep] obtain df'
    where res: "table_columns ?self temperature_frame = Inr df'"
      and "keys df' = [Some ''Temp''] @ map (\<lambda>k. Some (format_QC k)) [Some ''Temp'']"
    by (auto simp: temperature_frame_def keys_def format_QC_def)
  have "table_columns ?self temperature_frame =
      Inr \<lparr>rows = 2, columns = [(Some ''Temp'', [Data ''20.5'', Data ''20.7'']),
                               (Some ''Temp_QC'', [Flag 0, Flag 0])]\<rparr>"
    by (simp add: table_columns_def items)
       (simp add: temperature_frame_def filter_items_def add_QC_keys_def setitem_def
          format_QC_def keys_def numeral_2_eq_2)
  with items res show ?thesis by simp
qed

text \<open>
  Without the condition on the names the loop overwrites data: a file whose
  temperature column is relabelled \<open>A\<close> and whose pressure column is relabelled \<open>A_QC\<close>.
  Both columns are kept by the filter; the assignment of the flag column \<open>A_QC\<close> of the
  temperature then replaces the pressure data, and one column only is appended for the
  two columns kept.
\<close>

definition relabelled_column_line :: string where
  "relabelled_column_line =
     [CHR 0x22] @ ''Date Time'' @ [CHR 0x22] @ '','' @
     [CHR 0x22] @ ''Temp, C (LGR S/N: 1, LBL: A)'' @ [CHR 0x22] @ '','' @
     [CHR 0x22] @ ''Pres abs, kPa (LGR S/N: 1, LBL: A_QC)'' @ [CHR 0x22] @ [CHR 0x0A]"

definition relabelled_frame :: "string frame" where
  "relabelled_frame =
     \<lparr>rows = 1, columns = [(Some ''A'', [Data ''20.5'']), (Some ''A_QC'', [Data ''101.3''])]\<rparr>"

lemma quality_column_overwrites_data:
  "channel_items (snd (from_csv [title_line, relabelled_column_line])) =
     Inr [Some ''A'', Some ''A_QC'', None, None] \<and>
   filter_items [Some ''A'', Some ''A_QC'', None, None] relabelled_frame = Inr relabelled_frame \<and>
   table_columns (snd (from_csv [title_line, relabelled_column_line])) relabelled_frame =
     Inr \<lparr>rows = 1, columns = [(Some ''A'', [Data ''20.5'']), (Some ''A_QC'', [Flag 0]),
                              (Some ''A_QC_QC'', [Flag 0])]\<rparr>"
proof -
  let ?self = "snd (from_csv [title_line, relabelled_column_line])"
  have items: "channel_items ?self = Inr [Some ''A'', Some ''A_QC'', None, None]"
    unfolding title_line_def relabelled_column_line_def
    by (simp add: channel_items_def scan_eval csv_eval field_eval str_eval)
  have kept: "filter_items [Some ''A'', Some ''A_QC'', None, None] relabelled_frame =
      Inr relabelled_frame"
    by (simp add: relabelled_frame_def filter_items_def keys_def)
  have "table_columns ?self relabelled_frame =
      Inr \<lparr>rows = 1, columns = [(Some ''A'', [Data ''20.5'']), (Some ''A_QC'', [Flag 0]),
                               (Some ''A_QC_QC'', [Flag 0])]\<rparr>"
    by (simp add: table_columns_def items kept)
       (simp add: relabelled_frame_def add_QC_keys_def setitem_def format_QC_def keys_def)
  with items kept show ?thesis by simp
qed

text \<open>
  A file with the vendor's English label of the pressure column, and the table that is
  read from it, with one row.
\<close>

definition abs_pres_column_line :: string where
  "abs_pres_column_line =
     [CHR 0x22] @ ''#'' @ [CHR 0x22] @ '','' @ [CHR 0x22] @ ''Date Time'' @ [CHR 0x22] @ '','' @
     [CHR 0x22] @ ''Temp, C (LGR S/N: 1)'' @ [CHR 0x22] @ '','' @
     [CHR 0x22] @ ''Abs Pres, kPa (LGR S/N: 1)'' @ [CHR 0x22] @ [CHR 0x0A]"

definition abs_pres_frame :: "string frame" where
  "abs_pres_frame =
     \<lparr>rows = 1, columns = [(Some ''#'', [Data ''1'']),
                          (Some ''Temp, C (LGR S/N: 1)'', [Data ''20.5'']),
                          (Some ''Abs Pres, kPa (LGR S/N: 1)'', [Data ''101.3''])]\<rparr>"

text \<open>
  C9: a file whose pressure column carries the vendor's label \<open>Abs Pres, kPa\<close>. The
  pressure finder looks for \<open>Pres abs,\<close> and leaves its slot absent, so that the
  temperature slot alone is populated; the renaming loop matches \<open>Pres\<close> in the label
  and gives the column the name of the absent slot, \<open>None\<close>. The filter then finds
  \<open>None\<close> among the labels and keeps that column once for each of the three absent
  slots, and the loop over the keys adds the column \<open>None_QC\<close>: the table has six
  columns, three of them for an absent channel and one a flag column of an absent
  channel, where the columns \<open>Temp\<close> and \<open>Temp_QC\<close> alone were to remain.
\<close>

theorem absent_channel_gets_quality_column:
  "fst (from_csv [title_line, abs_pres_column_line]) =
     Inr [''Plot Title'' \<mapsto> ''t'', ''S/N'' \<mapsto> ''1''] \<and>
   read_csv_keys (snd (from_csv [title_line, abs_pres_column_line])) = keys abs_pres_frame \<and>
   channel_items (snd (from_csv [title_line, abs_pres_column_line])) =
     Inr [Some ''Temp'', None, None, None] \<and>
   rename_columns (snd (from_csv [title_line, abs_pres_column_line])) abs_pres_frame =
     Inr \<lparr>rows = 1, columns = [(Some ''#'', [Data ''1'']), (Some ''Temp'', [Data ''20.5'']),
                              (None, [Data ''101.3''])]\<rparr> \<and>
   assemble (snd (from_csv [title_line, abs_pres_column_line])) abs_pres_frame =
     Inr \<lparr>rows = 1, columns = [(Some ''Temp'', [Data ''20.5'']), (None, [Data ''101.3'']),
                              (None, [Data ''101.3'']), (None, [Data ''101.3'']),
                              (Some ''Temp_QC'', [Flag 0]), (Some ''None_QC'', [Flag 0])]\<rparr>"
proof -
  let ?self = "snd (from_csv [title_line, abs_pres_column_line])"
  have run: "from_csv [title_line, abs_pres_column_line] =
      (Inr [''Plot Title'' \<mapsto> ''t'', ''S/N'' \<mapsto> ''1''],
       \<lparr>f = [], title = Some [''Plot Title'', '' t''], sn = Some ''1'', timestamp = Some 1,
        name = (\<lambda>k. [None, None, None])(Temp := [Some ''Temp'', Some ''Temp'', Some ''C'']),
        headers = Some [''#'', ''Date Time'', ''Temp, C (LGR S/N: 1)'',
                        ''Abs Pres, kPa (LGR S/N: 1)'']\<rparr>)"
    unfolding title_line_def abs_pres_column_line_def
    by (simp add: scan_eval csv_eval field_eval str_eval)
  have md: "fst (from_csv [title_line, abs_pres_column_line]) =
      Inr [''Plot Title'' \<mapsto> ''t'', ''S/N'' \<mapsto> ''1'']"
    by (simp add: run)
  have ks: "read_csv_keys ?self = keys abs_pres_frame"
    by (simp add: run read_csv_keys_def abs_pres_frame_def keys_def)
  have items: "channel_items ?self = Inr [Some ''Temp'', None, None, None]"
    by (simp add: run channel_items_def getitem_def)
  have ren: "rename_columns ?self abs_pres_frame =
      Inr \<lparr>rows = 1, columns = [(Some ''#'', [Data ''1'']), (Some ''Temp'', [Data ''20.5'']),
                               (None, [Data ''101.3''])]\<rparr>"
    by (simp add: run rename_columns_def rename_column_def rename_def abs_pres_frame_def
        keys_def getitem_def)
  have tab: "table_columns ?self
      \<lparr>rows = 1, columns = [(Some ''#'', [Data ''1'']), (Some ''Temp'', [Data ''20.5'']),
                          (None, [Data ''101.3''])]\<rparr> =
      Inr \<lparr>rows = 1, columns = [(Some ''Temp'', [Data ''20.5'']), (None, [Data ''101.3'']),
                               (None, [Data ''101.3'']), (None, [Data ''101.3'']),
                               (Some ''Temp_QC'', [Flag 0]), (Some ''None_QC'', [Flag 0])]\<rparr>"
    by (simp add: table_columns_def items)
       (simp add: filter_items_def add_QC_keys_def setitem_def format_QC_def keys_def)
  show ?thesis
    using md ks items ren tab by (simp add: assemble_def)
qed

end
